theory Spec2Isabelle
  imports Complex_Main "HOL-Library.AList" "HOL-Library.Sublist"
begin

section \<open>Python values\<close>

text \<open>
  The pipeline passes around what \<^verbatim>\<open>json.loads\<close> and \<^verbatim>\<open>response.json()\<close> return:
  untyped trees of dicts, lists, strings, numbers, booleans and \<^verbatim>\<open>None\<close>. A dict keeps
  its insertion order and its keys are strings, so it is an association list. The trees
  come from a parser and share no sub-objects, so in-place mutation of the source is
  modelled by returning the updated value. Strings are lists of 8-bit characters, read
  as the code points below 256; text with other code points is outside the model.
\<close>

datatype pyfloat = Finite rat | PosInf | NegInf | NaN

datatype json =
    JNull
  | JBool bool
  | JInt int
  | JFloat pyfloat
  | JStr string
  | JList "json list"
  | JDict "(string \<times> json) list"

text \<open>The exceptions the modelled code can meet. \<open>JSONDecodeError\<close> is a subclass of
  \<open>ValueError\<close> in Python; of a \<open>ValueError\<close> raised by the source only the fixed
  leading text of the message is kept.\<close>

datatype exn =
    AttributeError
  | TypeError
  | KeyError
  | IndexError
  | JSONDecodeError
  | ValueError string
  | OtherError string

definition is_ValueError :: "exn \<Rightarrow> bool" where
  "is_ValueError e = (case e of JSONDecodeError \<Rightarrow> True | ValueError _ \<Rightarrow> True | _ \<Rightarrow> False)"

text \<open>Truth value of an object, as \<^verbatim>\<open>if x:\<close> tests it.\<close>

fun truthy :: "json \<Rightarrow> bool" where
  "truthy JNull = False"
| "truthy (JBool b) = b"
| "truthy (JInt n) = (n \<noteq> 0)"
| "truthy (JFloat (Finite r)) = (r \<noteq> 0)"
| "truthy (JFloat _) = True"
| "truthy (JStr s) = (s \<noteq> [])"
| "truthy (JList xs) = (xs \<noteq> [])"
| "truthy (JDict d) = (d \<noteq> [])"

text \<open>\<^verbatim>\<open>d.get(k, default)\<close> on a dict.\<close>

definition dict_get :: "(string \<times> json) list \<Rightarrow> string \<Rightarrow> json \<Rightarrow> json" where
  "dict_get d k dflt = (case map_of d k of None \<Rightarrow> dflt | Some v \<Rightarrow> v)"

text \<open>\<^verbatim>\<open>x.get(k, default)\<close> on any object: only a dict has the method.\<close>

definition py_get :: "json \<Rightarrow> string \<Rightarrow> json \<Rightarrow> exn + json" where
  "py_get x k dflt = (case x of JDict d \<Rightarrow> Inr (dict_get d k dflt) | _ \<Rightarrow> Inl AttributeError)"

text \<open>\<^verbatim>\<open>d[k] = v\<close> on a dict: an existing key keeps its place, a new key goes last.\<close>

definition dict_set :: "(string \<times> json) list \<Rightarrow> string \<Rightarrow> json \<Rightarrow> (string \<times> json) list" where
  "dict_set d k v = AList.update k v d"

text \<open>\<^verbatim>\<open>x[k]\<close> with a string key, and \<^verbatim>\<open>x[0]\<close>.\<close>

definition py_getitem :: "json \<Rightarrow> string \<Rightarrow> exn + json" where
  "py_getitem x k =
     (case x of
        JDict d \<Rightarrow> (case map_of d k of None \<Rightarrow> Inl KeyError | Some v \<Rightarrow> Inr v)
      | _ \<Rightarrow> Inl TypeError)"

definition py_first :: "json \<Rightarrow> exn + json" where
  "py_first x =
     (case x of
        JList xs \<Rightarrow> (case xs of [] \<Rightarrow> Inl IndexError | y # _ \<Rightarrow> Inr y)
      | JStr s \<Rightarrow> (case s of [] \<Rightarrow> Inl IndexError | c # _ \<Rightarrow> Inr (JStr [c]))
      | JDict d \<Rightarrow> Inl KeyError
      | _ \<Rightarrow> Inl TypeError)"

text \<open>Lists and dicts cannot be dictionary keys.\<close>

definition hashable :: "json \<Rightarrow> bool" where
  "hashable x = (case x of JList _ \<Rightarrow> False | JDict _ \<Rightarrow> False | _ \<Rightarrow> True)"

text \<open>The integer a key compares equal to, if any: \<^verbatim>\<open>True == 1\<close> and \<^verbatim>\<open>2.0 == 2\<close>.\<close>

definition as_int_key :: "json \<Rightarrow> int option" where
  "as_int_key x =
     (case x of
        JInt n \<Rightarrow> Some n
      | JBool b \<Rightarrow> Some (if b then 1 else 0)
      | JFloat f \<Rightarrow>
          (case f of
             Finite r \<Rightarrow> (if r = of_int \<lfloor>r\<rfloor> then Some \<lfloor>r\<rfloor> else None)
           | _ \<Rightarrow> None)
      | _ \<Rightarrow> None)"

text \<open>Sequencing of steps that may raise: the first exception ends the sequence.\<close>

definition and_then :: "exn + 'a \<Rightarrow> ('a \<Rightarrow> exn + 'b) \<Rightarrow> exn + 'b" where
  "and_then m f = (case m of Inl e \<Rightarrow> Inl e | Inr x \<Rightarrow> f x)"

text \<open>\<^verbatim>\<open>for x in v\<close>: a list gives its items, a str its characters, a dict its keys;
  nothing else can be iterated.\<close>

definition py_iter :: "json \<Rightarrow> exn + json list" where
  "py_iter v =
     (case v of
        JList xs \<Rightarrow> Inr xs
      | JStr s \<Rightarrow> Inr (map (\<lambda>c. JStr [c]) s)
      | JDict d \<Rightarrow> Inr (map (\<lambda>kv. JStr (fst kv)) d)
      | _ \<Rightarrow> Inl TypeError)"

definition is_dict :: "json \<Rightarrow> bool" where
  "is_dict v = (case v of JDict _ \<Rightarrow> True | _ \<Rightarrow> False)"

text \<open>A field of a record that came as a dict, read as \<^verbatim>\<open>d.get(k)\<close> and
  \<^verbatim>\<open>d.get(k, default)\<close> read it.\<close>

definition field :: "json \<Rightarrow> string \<Rightarrow> json" where
  "field v k = (case v of JDict d \<Rightarrow> dict_get d k JNull | _ \<Rightarrow> JNull)"

definition field_or :: "json \<Rightarrow> string \<Rightarrow> json \<Rightarrow> json" where
  "field_or v k dflt = (case v of JDict d \<Rightarrow> dict_get d k dflt | _ \<Rightarrow> dflt)"

text \<open>\<^verbatim>\<open>x[k] = v\<close>, \<^verbatim>\<open>k in x\<close> for a dict \<open>x\<close>, and \<^verbatim>\<open>len(x)\<close>.\<close>

definition py_setitem :: "json \<Rightarrow> string \<Rightarrow> json \<Rightarrow> exn + json" where
  "py_setitem x k v = (case x of JDict d \<Rightarrow> Inr (JDict (dict_set d k v)) | _ \<Rightarrow> Inl TypeError)"

definition has_key :: "(string \<times> json) list \<Rightarrow> string \<Rightarrow> bool" where
  "has_key d k = (map_of d k \<noteq> None)"

definition py_len :: "json \<Rightarrow> exn + json" where
  "py_len x =
     (case x of
        JList xs \<Rightarrow> Inr (JInt (int (length xs)))
      | JStr s \<Rightarrow> Inr (JInt (int (length s)))
      | JDict d \<Rightarrow> Inr (JInt (int (length d)))
      | _ \<Rightarrow> Inl TypeError)"

section \<open>Python strings\<close>

text \<open>
  A \<^verbatim>\<open>str\<close> is a list of characters, read as code points below 256; the character
  classes below are Python's on that range. \<^verbatim>\<open>sub in s\<close> holds when \<open>sub\<close> occurs in
  \<open>s\<close> as a contiguous block.
\<close>

definition str_in :: "string \<Rightarrow> string \<Rightarrow> bool" where
  "str_in sub s = sublist sub s"

text \<open>\<^verbatim>\<open>str.isspace\<close>: tab to carriage return, the four separators, space, NEL and
  the no-break space.\<close>

definition isspace :: "char \<Rightarrow> bool" where
  "isspace c = (of_char c \<in> {9, 10, 11, 12, 13, 28, 29, 30, 31, 32, 133, 160 :: nat})"

text \<open>\<^verbatim>\<open>\d\<close> matches the decimal digits; \<^verbatim>\<open>str.isdigit\<close> also accepts the
  superscripts two, three and one.\<close>

definition is_decimal :: "char \<Rightarrow> bool" where
  "is_decimal c = (48 \<le> (of_char c :: nat) \<and> (of_char c :: nat) \<le> 57)"

definition isdigit_char :: "char \<Rightarrow> bool" where
  "isdigit_char c = (is_decimal c \<or> of_char c \<in> {178, 179, 185 :: nat})"

text \<open>\<^verbatim>\<open>s.strip()\<close> drops the white space at both ends.\<close>

definition strip :: "string \<Rightarrow> string" where
  "strip s = rev (dropWhile isspace (rev (dropWhile isspace s)))"

text \<open>\<^verbatim>\<open>s.isdigit()\<close>: not empty, and every character a digit.\<close>

definition isdigit :: "string \<Rightarrow> bool" where
  "isdigit s = (s \<noteq> [] \<and> list_all isdigit_char s)"

text \<open>\<^verbatim>\<open>s.split(sep)\<close> for a one-character separator: always at least one piece.\<close>

fun split_on :: "char \<Rightarrow> string \<Rightarrow> string list" where
  "split_on sep [] = [[]]"
| "split_on sep (c # cs) =
     (if c = sep then [] # split_on sep cs
      else (case split_on sep cs of [] \<Rightarrow> [[c]] | l # ls \<Rightarrow> (c # l) # ls))"

text \<open>\<^verbatim>\<open>sep.join(xs)\<close>.\<close>

fun join :: "string \<Rightarrow> string list \<Rightarrow> string" where
  "join sep [] = []"
| "join sep [x] = x"
| "join sep (x # y # ys) = x @ sep @ join sep (y # ys)"

text \<open>\<^verbatim>\<open>s.lower()\<close>: the capital letters A to Z and, above 127, the capital letters of
  Latin-1 go to their small letters; every other character stays.\<close>

definition lower_char :: "char \<Rightarrow> char" where
  "lower_char c =
     (let n = of_char c :: nat in
      if (65 \<le> n \<and> n \<le> 90) \<or> (192 \<le> n \<and> n \<le> 222 \<and> n \<noteq> 215) then char_of (n + 32) else c)"

definition lower :: "string \<Rightarrow> string" where
  "lower s = map lower_char s"

section \<open>content\_extractor.py\<close>

subsection \<open>clean\_subtitles\<close>

text \<open>\<^verbatim>\<open>re.match(r'^\d{2}:\d{2}', line)\<close>: two digits, a colon, two digits at the start.\<close>

definition match_timestamp :: "string \<Rightarrow> bool" where
  "match_timestamp s =
     (case s of
        a # b # c # d # e # _ \<Rightarrow>
          is_decimal a \<and> is_decimal b \<and> c = CHR '':'' \<and> is_decimal d \<and> is_decimal e
      | _ \<Rightarrow> False)"

text \<open>
  \<^verbatim>\<open>re.sub(r'<[^>]+>', '', line)\<close>. After a \<open><\<close> the class \<^verbatim>\<open>[^>]+\<close> takes every
  character up to the next \<open>>\<close>; the tag matches when that run is not empty and a
  \<open>>\<close> follows it. \<open>tag_end\<close> gives the text after such a tag. Where no tag starts, the
  character is kept and the scan moves on by one.
\<close>

definition tag_end :: "string \<Rightarrow> string option" where
  "tag_end cs =
     (let body = takeWhile (\<lambda>c. c \<noteq> CHR ''>'') cs; rest = dropWhile (\<lambda>c. c \<noteq> CHR ''>'') cs
      in if body \<noteq> [] \<and> rest \<noteq> [] then Some (tl rest) else None)"

function remove_tags :: "string \<Rightarrow> string" where
  "remove_tags [] = []"
| "remove_tags (c # cs) =
     (if c = CHR ''<'' then
        (case tag_end cs of None \<Rightarrow> c # remove_tags cs | Some rest \<Rightarrow> remove_tags rest)
      else c # remove_tags cs)"
  by pat_completeness auto
termination
proof (relation "measure length")
  fix c :: char and cs r :: string
  assume "tag_end cs = Some r"
  let ?rest = "dropWhile (\<lambda>c. c \<noteq> CHR ''>'') cs"
  from \<open>tag_end cs = Some r\<close> have "?rest \<noteq> []" and "r = tl ?rest"
    by (auto simp: tag_end_def Let_def split: if_splits)
  then have "length r < length ?rest" by (cases ?rest) auto
  also have "length ?rest \<le> length cs" by (rule length_dropWhile_le)
  finally show "(r, c # cs) \<in> measure length" by simp
qed auto

text \<open>\<^verbatim>\<open>re.sub(r'&nbsp;', ' ', line)\<close>.\<close>

fun replace_nbsp :: "string \<Rightarrow> string" where
  "replace_nbsp [] = []"
| "replace_nbsp (c # cs) =
     (if prefix ''&nbsp;'' (c # cs) then CHR '' '' # replace_nbsp (drop 5 cs)
      else c # replace_nbsp cs)"

text \<open>
  The loop over the lines, with the list \<^verbatim>\<open>text_lines\<close> it appends to. Each
  \<^verbatim>\<open>continue\<close> is a recursive call with the list unchanged. The parameter
  \<^verbatim>\<open>format\<close> is not read by the source.
\<close>

fun clean_lines :: "string list \<Rightarrow> string list \<Rightarrow> string list" where
  "clean_lines [] text_lines = text_lines"
| "clean_lines (l # ls) text_lines =
     (let line = strip l in
      if line = [] then clean_lines ls text_lines
      else if str_in ''-->'' line then clean_lines ls text_lines
      else if prefix ''WEBVTT'' line then clean_lines ls text_lines
      else if isdigit line then clean_lines ls text_lines
      else if match_timestamp line then clean_lines ls text_lines
      else (let line = replace_nbsp (remove_tags line) in
            if line \<noteq> [] then clean_lines ls (text_lines @ [line])
            else clean_lines ls text_lines))"

definition clean_subtitles :: "string \<Rightarrow> string \<Rightarrow> string" where
  "clean_subtitles content format = join '' '' (clean_lines (split_on (CHR 0x0A) content) [])"

text \<open>Auxiliary notions for the proofs: a stripped line that passes the five skip
  tests, and a text without white space at either end.\<close>

definition kept :: "string \<Rightarrow> bool" where
  "kept line = (line \<noteq> [] \<and> \<not> str_in ''-->'' line \<and> \<not> prefix ''WEBVTT'' line
                \<and> \<not> isdigit line \<and> \<not> match_timestamp line)"

definition trimmed :: "string \<Rightarrow> bool" where
  "trimmed s = (s \<noteq> [] \<and> \<not> isspace (hd s) \<and> \<not> isspace (last s))"

section \<open>The world outside\<close>

text \<open>
  Every stage talks to a service: the platform extractors run a metadata tool and fetch
  pages, the synthesizer asks a text generator, the enricher queries a places
  directory. A run is modelled against a \<open>world\<close> that fixes what the n-th outside
  call of the run answers, and each function that makes calls takes the list of calls
  made so far and returns it extended. The answer to a call is looked up at the number
  of calls made before it. Since a theorem holds for every world, it holds whatever the
  services answer, and whenever they fail.

  \<open>http_json\<close> is the outcome of a GET to the places directory followed by
  \<^verbatim>\<open>response.json()\<close>: the parsed body, or the exception of the request or of the
  parse. \<open>completion\<close> is the outcome of the chat completion: the message content
  (a str, or \<^verbatim>\<open>None\<close>), or the exception of the call. \<open>extractor_result\<close> is what a
  platform extractor returns: a content dict, or \<^verbatim>\<open>None\<close>.

  Two library functions are taken from the world as well, since their code is not the
  repository's: \<open>json_loads\<close> is \<^verbatim>\<open>json.loads\<close> on a str, the parsed value or the
  exception it raises (\<open>JSONDecodeError\<close> for a text that is not JSON), and \<open>repr\<close> is
  Python's text for a value that is not a str. Printing to the console is not modelled.
\<close>

datatype platform = TikTok | Instagram | YouTube

datatype call =
    RunExtractor platform string
  | ChatCompletion json "int option" "string option"
  | TextSearch json json "string option"
  | PlaceDetails json

record world =
  extractor_result :: "nat \<Rightarrow> json"
  completion :: "nat \<Rightarrow> exn + json"
  http_json :: "nat \<Rightarrow> exn + json"
  json_loads :: "string \<Rightarrow> exn + json"
  repr :: "json \<Rightarrow> string"

text \<open>\<^verbatim>\<open>os.getenv\<close> gives a str or \<^verbatim>\<open>None\<close>; \<^verbatim>\<open>if not KEY\<close> rejects both
  \<^verbatim>\<open>None\<close> and the empty str.\<close>

definition key_set :: "string option \<Rightarrow> bool" where
  "key_set key = (case key of None \<Rightarrow> False | Some k \<Rightarrow> k \<noteq> [])"

definition py_str :: "world \<Rightarrow> json \<Rightarrow> string" where
  "py_str w v = (case v of JStr s \<Rightarrow> s | _ \<Rightarrow> repr w v)"

text \<open>\<^verbatim>\<open>json.loads(x)\<close>: only a str is given to the parser (the source never passes
  bytes).\<close>

definition py_loads :: "world \<Rightarrow> json \<Rightarrow> exn + json" where
  "py_loads w x = (case x of JStr s \<Rightarrow> json_loads w s | _ \<Rightarrow> Inl TypeError)"

section \<open>places\_enrichment.py\<close>

subsection \<open>convert\_price\_level\<close>

definition price_mapping :: "(int \<times> string) list" where
  "price_mapping = [(0, ''Free''), (1, ''$''), (2, ''$$''), (3, ''$$$''), (4, ''$$$$'')]"

definition convert_price_level :: "json \<Rightarrow> exn + json" where
  "convert_price_level google_price_level =
     (if google_price_level = JNull then Inr JNull
      else if \<not> hashable google_price_level then Inl TypeError
      else (case as_int_key google_price_level of
              None \<Rightarrow> Inr JNull
            | Some n \<Rightarrow> (case map_of price_mapping n of
                          None \<Rightarrow> Inr JNull
                        | Some label \<Rightarrow> Inr (JStr label))))"

definition PLACES_BASE_URL :: string where
  "PLACES_BASE_URL = ''https://maps.googleapis.com/maps/api/place''"

definition type_mapping :: "(string \<times> string) list" where
  "type_mapping =
     [(''restaurant'', ''restaurant''),
      (''attraction'', ''tourist_attraction''),
      (''hotel'', ''lodging''),
      (''activity'', ''point_of_interest''),
      (''neighborhood'', ''neighborhood'')]"

subsection \<open>search\_place and get\_place\_details\<close>

text \<open>
  Both helpers wrap their body in \<^verbatim>\<open>try ... except Exception\<close> and return
  \<^verbatim>\<open>None\<close> from the handler. \<open>search_type\<close> is the optional type filter:
  \<^verbatim>\<open>location_type in type_mapping\<close> raises for a list or a dict, before any request
  is sent. The query text is made of the location's name and the destination; the call
  is recorded with these two values.
\<close>

definition search_type :: "json \<Rightarrow> exn + string option" where
  "search_type location_type =
     (if \<not> truthy location_type then Inr None
      else if \<not> hashable location_type then Inl TypeError
      else (case location_type of JStr t \<Rightarrow> Inr (map_of type_mapping t) | _ \<Rightarrow> Inr None))"

definition search_result :: "json \<Rightarrow> exn + json" where
  "search_result data =
     and_then (py_get data ''status'' JNull) (\<lambda>status.
       if status = JStr ''OK'' then
         and_then (py_get data ''results'' JNull) (\<lambda>results.
           if truthy results then and_then (py_getitem data ''results'') py_first
           else Inr JNull)
       else Inr JNull)"

definition search_place ::
  "world \<Rightarrow> string option \<Rightarrow> json \<Rightarrow> json \<Rightarrow> json \<Rightarrow> call list \<Rightarrow> json \<times> call list" where
  "search_place w key name destination location_type calls =
     (if \<not> key_set key then (JNull, calls)
      else (case search_type location_type of
              Inl e \<Rightarrow> (JNull, calls)
            | Inr ty \<Rightarrow>
                (case and_then (http_json w (length calls)) search_result of
                   Inl e \<Rightarrow> (JNull, calls @ [TextSearch name destination ty])
                 | Inr place \<Rightarrow> (place, calls @ [TextSearch name destination ty]))))"

definition details_result :: "json \<Rightarrow> exn + json" where
  "details_result data =
     and_then (py_get data ''status'' JNull) (\<lambda>status.
       if status = JStr ''OK'' then py_get data ''result'' JNull else Inr JNull)"

definition get_place_details ::
  "world \<Rightarrow> string option \<Rightarrow> json \<Rightarrow> call list \<Rightarrow> json \<times> call list" where
  "get_place_details w key place_id calls =
     (if \<not> key_set key \<or> \<not> truthy place_id then (JNull, calls)
      else (case and_then (http_json w (length calls)) details_result of
              Inl e \<Rightarrow> (JNull, calls @ [PlaceDetails place_id])
            | Inr details \<Rightarrow> (details, calls @ [PlaceDetails place_id])))"

subsection \<open>enrich\_single\_location\<close>

definition get_photo_url :: "world \<Rightarrow> string option \<Rightarrow> json \<Rightarrow> string" where
  "get_photo_url w key photo_reference =
     PLACES_BASE_URL @ ''/photo?maxwidth=800&photo_reference='' @ py_str w photo_reference
       @ ''&key='' @ (case key of None \<Rightarrow> ''None'' | Some k \<Rightarrow> k)"

text \<open>
  The statements of the update block, in the order of the source. Each one reads the
  details and assigns one key of the location; each can raise when the details do not
  have the shape the source expects.
\<close>

definition geometry_field :: "json \<Rightarrow> string \<Rightarrow> exn + json" where
  "geometry_field details k =
     and_then (py_get details ''geometry'' (JDict [])) (\<lambda>geometry.
     and_then (py_get geometry ''location'' (JDict [])) (\<lambda>location.
       py_get location k JNull))"

definition set_address :: "json \<Rightarrow> (string \<times> json) list \<Rightarrow> exn + (string \<times> json) list" where
  "set_address details location =
     and_then (py_get details ''formatted_address'' (dict_get location ''address'' JNull))
       (\<lambda>v. Inr (dict_set location ''address'' v))"

definition set_coordinates :: "json \<Rightarrow> (string \<times> json) list \<Rightarrow> exn + (string \<times> json) list" where
  "set_coordinates details location =
     and_then (geometry_field details ''lat'') (\<lambda>lat.
     and_then (geometry_field details ''lng'') (\<lambda>lng.
       Inr (dict_set location ''coordinates'' (JDict [(''lat'', lat), (''lng'', lng)]))))"

definition set_rating :: "json \<Rightarrow> (string \<times> json) list \<Rightarrow> exn + (string \<times> json) list" where
  "set_rating details location =
     and_then (py_get details ''rating'' JNull) (\<lambda>v. Inr (dict_set location ''rating'' v))"

definition set_price_level :: "json \<Rightarrow> (string \<times> json) list \<Rightarrow> exn + (string \<times> json) list" where
  "set_price_level details location =
     and_then (py_get details ''price_level'' JNull) (\<lambda>p.
     and_then (convert_price_level p) (\<lambda>v. Inr (dict_set location ''price_level'' v)))"

definition set_google_maps_url :: "json \<Rightarrow> (string \<times> json) list \<Rightarrow> exn + (string \<times> json) list" where
  "set_google_maps_url details location =
     and_then (py_get details ''url'' JNull) (\<lambda>v. Inr (dict_set location ''google_maps_url'' v))"

definition set_image_url ::
  "world \<Rightarrow> string option \<Rightarrow> json \<Rightarrow> (string \<times> json) list \<Rightarrow> exn + (string \<times> json) list" where
  "set_image_url w key details location =
     and_then (py_get details ''photos'' JNull) (\<lambda>photos.
       if truthy photos then
         and_then (py_getitem details ''photos'') (\<lambda>ps.
         and_then (py_first ps) (\<lambda>photo.
         and_then (py_get photo ''photo_reference'' JNull) (\<lambda>photo_ref.
           if truthy photo_ref
           then Inr (dict_set location ''image_url'' (JStr (get_photo_url w key photo_ref)))
           else Inr location)))
       else Inr location)"

definition set_opening_hours :: "json \<Rightarrow> (string \<times> json) list \<Rightarrow> exn + (string \<times> json) list" where
  "set_opening_hours details location =
     and_then (py_get details ''opening_hours'' JNull) (\<lambda>hours.
       if truthy hours then
         and_then (py_getitem details ''opening_hours'') (\<lambda>h.
         and_then (py_get h ''weekday_text'' (JList [])) (\<lambda>v.
           Inr (dict_set location ''opening_hours'' v)))
       else Inr location)"

text \<open>One statement of the update block: when it raises, the location stays as the
  statements before it left it, and the remaining statements are skipped.\<close>

fun run_updates ::
  "((string \<times> json) list \<Rightarrow> exn + (string \<times> json) list) list \<Rightarrow> (string \<times> json) list
     \<Rightarrow> (string \<times> json) list" where
  "run_updates [] location = location"
| "run_updates (step # steps) location =
     (case step location of Inl e \<Rightarrow> location | Inr location' \<Rightarrow> run_updates steps location')"

definition update_location ::
  "world \<Rightarrow> string option \<Rightarrow> json \<Rightarrow> (string \<times> json) list \<Rightarrow> (string \<times> json) list" where
  "update_location w key details location =
     run_updates
       [set_address details, set_coordinates details, set_rating details,
        set_price_level details, set_google_maps_url details, set_image_url w key details,
        set_opening_hours details]
       location"

text \<open>
  The whole function. The body runs inside \<^verbatim>\<open>try\<close>; the handler prints the
  location's name and returns the location as the statements so far left it. A location
  that is not a dict has no \<^verbatim>\<open>get\<close>: the body raises at once, and so does the
  handler's own \<^verbatim>\<open>location.get('name')\<close>, which leaves the function.
\<close>

definition enrich_single_location ::
  "world \<Rightarrow> string option \<Rightarrow> json \<Rightarrow> json \<Rightarrow> call list \<Rightarrow> (exn + json) \<times> call list" where
  "enrich_single_location w key location destination calls =
     (if \<not> key_set key then (Inr location, calls)
      else (case location of
              JDict loc \<Rightarrow>
                (case search_place w key (dict_get loc ''name'' JNull) destination
                        (dict_get loc ''type'' JNull) calls of
                   (place_data, calls1) \<Rightarrow>
                     if truthy place_data then
                       (case py_get place_data ''place_id'' JNull of
                          Inl e \<Rightarrow> (Inr location, calls1)
                        | Inr place_id \<Rightarrow>
                            (case get_place_details w key place_id calls1 of
                               (details, calls2) \<Rightarrow>
                                 if truthy details
                                 then (Inr (JDict (update_location w key details loc)), calls2)
                                 else (Inr location, calls2)))
                     else (Inr location, calls1))
            | _ \<Rightarrow> (Inl AttributeError, calls)))"

subsection \<open>enrich\_locations\<close>

text \<open>
  The inner loop with its list \<^verbatim>\<open>enriched_locations\<close>, one pass of the outer loop,
  the outer loop, and the function. The source assigns \<^verbatim>\<open>day['locations']\<close> on the
  day objects inside the itinerary; the model rebuilds the list of days and stores it
  back under the key it came from.
\<close>

fun enrich_each ::
  "world \<Rightarrow> string option \<Rightarrow> json \<Rightarrow> json list \<Rightarrow> json list \<Rightarrow> call list
     \<Rightarrow> (exn + json list) \<times> call list" where
  "enrich_each w key destination [] enriched_locations calls = (Inr enriched_locations, calls)"
| "enrich_each w key destination (location # rest) enriched_locations calls =
     (case enrich_single_location w key location destination calls of
        (Inl e, calls') \<Rightarrow> (Inl e, calls')
      | (Inr enriched, calls') \<Rightarrow>
          enrich_each w key destination rest (enriched_locations @ [enriched]) calls')"

definition enrich_day ::
  "world \<Rightarrow> string option \<Rightarrow> json \<Rightarrow> json \<Rightarrow> call list \<Rightarrow> (exn + json) \<times> call list" where
  "enrich_day w key destination day calls =
     (case and_then (py_get day ''locations'' (JList [])) py_iter of
        Inl e \<Rightarrow> (Inl e, calls)
      | Inr locations \<Rightarrow>
          (case enrich_each w key destination locations [] calls of
             (Inl e, calls') \<Rightarrow> (Inl e, calls')
           | (Inr enriched_locations, calls') \<Rightarrow>
               (case day of
                  JDict d \<Rightarrow> (Inr (JDict (dict_set d ''locations'' (JList enriched_locations))), calls')
                | _ \<Rightarrow> (Inl TypeError, calls'))))"

fun enrich_days ::
  "world \<Rightarrow> string option \<Rightarrow> json \<Rightarrow> json list \<Rightarrow> call list \<Rightarrow> (exn + json list) \<times> call list" where
  "enrich_days w key destination [] calls = (Inr [], calls)"
| "enrich_days w key destination (day # rest) calls =
     (case enrich_day w key destination day calls of
        (Inl e, calls') \<Rightarrow> (Inl e, calls')
      | (Inr day', calls') \<Rightarrow>
          (case enrich_days w key destination rest calls' of
             (Inl e, calls'') \<Rightarrow> (Inl e, calls'')
           | (Inr rest', calls'') \<Rightarrow> (Inr (day' # rest'), calls'')))"

definition enrich_locations ::
  "world \<Rightarrow> string option \<Rightarrow> json \<Rightarrow> call list \<Rightarrow> (exn + json) \<times> call list" where
  "enrich_locations w key itinerary calls =
     (if \<not> key_set key then (Inr itinerary, calls)
      else (case py_get itinerary ''destination'' (JStr []) of
              Inl e \<Rightarrow> (Inl e, calls)
            | Inr destination \<Rightarrow>
                (case and_then (py_get itinerary ''days'' (JList [])) py_iter of
                   Inl e \<Rightarrow> (Inl e, calls)
                 | Inr days \<Rightarrow>
                     (case enrich_days w key destination days calls of
                        (Inl e, calls') \<Rightarrow> (Inl e, calls')
                      | (Inr days', calls') \<Rightarrow>
                          (case itinerary of
                             JDict d \<Rightarrow>
                               (case map_of d ''days'' of
                                  Some (JList _) \<Rightarrow> (Inr (JDict (dict_set d ''days'' (JList days'))), calls')
                                | _ \<Rightarrow> (Inr itinerary, calls'))
                           | _ \<Rightarrow> (Inr itinerary, calls'))))))"

section \<open>ai\_pipeline.py\<close>

text \<open>
  \<^verbatim>\<open>re.search(r'\{[\s\S]*\}', raw_content)\<close>. The search starts at the first \<open>{\<close>; the
  star is greedy and matches any character, so the match runs to the last \<open>}\<close> of the
  text. There is no match when the text has no \<open>{\<close> with a \<open>}\<close> after it.
\<close>

definition search_braces :: "string \<Rightarrow> string option" where
  "search_braces raw_content =
     (let from_open = dropWhile (\<lambda>c. c \<noteq> CHR ''{'') raw_content;
          matched = rev (dropWhile (\<lambda>c. c \<noteq> CHR ''}'') (rev from_open))
      in if matched = [] then None else Some matched)"

text \<open>The two assignments that stamp the source onto the result.\<close>

definition stamp_source :: "json \<Rightarrow> string \<Rightarrow> json \<Rightarrow> exn + json" where
  "stamp_source content_data source_url result =
     and_then (py_setitem result ''source_url'' (JStr source_url)) (\<lambda>result.
     and_then (py_get content_data ''creator'' (JStr [])) (\<lambda>creator.
       py_setitem result ''source_creator'' creator))"

text \<open>The block under the comment "Ensure required fields exist". The result is a dict
  here, since the assignments before it went through.\<close>

definition ensure_required_fields :: "json \<Rightarrow> exn + json" where
  "ensure_required_fields result =
     (case result of
        JDict d \<Rightarrow>
          (let d1 = (if \<not> has_key d ''days'' then dict_set d ''days'' (JList []) else d) in
           and_then
             (if \<not> has_key d1 ''duration_days''
              then and_then (py_len (dict_get d1 ''days'' JNull))
                     (\<lambda>n. Inr (dict_set d1 ''duration_days'' n))
              else Inr d1)
             (\<lambda>d2.
                let d3 = (if \<not> has_key d2 ''packing_tips''
                          then dict_set d2 ''packing_tips'' (JList []) else d2);
                    d4 = (if \<not> has_key d3 ''local_phrases''
                          then dict_set d3 ''local_phrases'' (JList []) else d3)
                in Inr (JDict d4)))
      | _ \<Rightarrow> Inl TypeError)"

text \<open>The handler of \<^verbatim>\<open>json.JSONDecodeError\<close>. What it raises leaves the function
  as it is: the handlers of one \<^verbatim>\<open>try\<close> do not guard each other.\<close>

definition recover :: "world \<Rightarrow> json \<Rightarrow> string \<Rightarrow> string \<Rightarrow> exn + json" where
  "recover w content_data source_url raw_content =
     (case search_braces raw_content of
        Some matched \<Rightarrow> and_then (json_loads w matched) (stamp_source content_data source_url)
      | None \<Rightarrow> Inl (ValueError ''Failed to parse AI response as JSON''))"

text \<open>
  The function. The prompt is built from the content record, the duration and the
  preferences before the \<^verbatim>\<open>try\<close>; building it reads \<^verbatim>\<open>content_data.get\<close> and
  cannot fail otherwise, and its text reaches only the generator, so the call is
  recorded with the three values the prompt is made of. Inside the \<^verbatim>\<open>try\<close>, a
  \<open>JSONDecodeError\<close> goes to the first handler and every other exception becomes the
  \<open>ValueError\<close> of the second. A \<open>JSONDecodeError\<close> out of the completion call itself
  would find \<^verbatim>\<open>response\<close> unbound in the first handler.
\<close>

definition generate_itinerary ::
  "world \<Rightarrow> json \<Rightarrow> string \<Rightarrow> int option \<Rightarrow> string option \<Rightarrow> call list
     \<Rightarrow> (exn + json) \<times> call list" where
  "generate_itinerary w content_data source_url duration_override preferences calls =
     (case py_get content_data ''transcript'' JNull of
        Inl e \<Rightarrow> (Inl e, calls)
      | Inr transcript \<Rightarrow>
          (let calls' = calls @ [ChatCompletion content_data duration_override preferences] in
           case completion w (length calls) of
             Inl e \<Rightarrow>
               (if e = JSONDecodeError then (Inl (OtherError ''UnboundLocalError''), calls')
                else (Inl (ValueError ''AI generation failed''), calls'))
           | Inr content \<Rightarrow>
               (case and_then (py_loads w content) (\<lambda>result.
                     and_then (stamp_source content_data source_url result)
                       ensure_required_fields) of
                  Inr result \<Rightarrow> (Inr result, calls')
                | Inl e \<Rightarrow>
                    (if e = JSONDecodeError then
                       (case content of
                          JStr raw_content \<Rightarrow>
                            (recover w content_data source_url raw_content, calls')
                        | _ \<Rightarrow> (Inl TypeError, calls'))
                     else (Inl (ValueError ''AI generation failed''), calls')))))"

section \<open>content\_extractor.py: the dispatcher\<close>

text \<open>
  The three platform extractors run the metadata tool, fetch pages and read markup. Each
  catches every exception and returns \<^verbatim>\<open>None\<close> or a dict whose \<open>platform\<close> is its
  own; what else the dict holds comes from the world.
\<close>

definition platform_name :: "platform \<Rightarrow> string" where
  "platform_name p = (case p of TikTok \<Rightarrow> ''tiktok'' | Instagram \<Rightarrow> ''instagram'' | YouTube \<Rightarrow> ''youtube'')"

definition run_extractor :: "platform \<Rightarrow> world \<Rightarrow> string \<Rightarrow> call list \<Rightarrow> json \<times> call list" where
  "run_extractor p w url calls =
     (case extractor_result w (length calls) of
        JDict d \<Rightarrow> (JDict (dict_set d ''platform'' (JStr (platform_name p))), calls @ [RunExtractor p url])
      | _ \<Rightarrow> (JNull, calls @ [RunExtractor p url]))"

definition extract_tiktok :: "world \<Rightarrow> string \<Rightarrow> call list \<Rightarrow> json \<times> call list" where
  "extract_tiktok = run_extractor TikTok"

definition extract_instagram :: "world \<Rightarrow> string \<Rightarrow> call list \<Rightarrow> json \<times> call list" where
  "extract_instagram = run_extractor Instagram"

definition extract_youtube :: "world \<Rightarrow> string \<Rightarrow> call list \<Rightarrow> json \<times> call list" where
  "extract_youtube = run_extractor YouTube"

definition extract_content_from_url :: "world \<Rightarrow> string \<Rightarrow> call list \<Rightarrow> json \<times> call list" where
  "extract_content_from_url w url calls =
     (let url_lower = lower url in
      if str_in ''tiktok.com'' url_lower \<or> str_in ''vm.tiktok.com'' url_lower
      then extract_tiktok w url calls
      else if str_in ''instagram.com'' url_lower
      then extract_instagram w url calls
      else if str_in ''youtube.com'' url_lower \<or> str_in ''youtu.be'' url_lower
      then extract_youtube w url calls
      else (JNull, calls))"

section \<open>main.py\<close>

record trip_request =
  url :: string
  trip_duration :: "int option"
  preferences :: "string option"

text \<open>
  The environment of the process. \<^verbatim>\<open>main.py\<close> reads both keys with \<^verbatim>\<open>os.getenv\<close>
  while it serves a request; \<^verbatim>\<open>places_enrichment.py\<close> reads the places key once,
  when the module is imported, and keeps it in a global.
\<close>

record environment =
  OPENAI_API_KEY :: "string option"
  GOOGLE_PLACES_API_KEY :: "string option"
  places_module_key :: "string option"

datatype response = HTTPException nat string | Returned json

definition valid_domains :: "string list" where
  "valid_domains = [''tiktok.com'', ''instagram.com'', ''youtube.com'', ''vm.tiktok.com'']"

text \<open>
  The endpoint. An \<open>HTTPException\<close> raised in the \<^verbatim>\<open>try\<close> is raised again; every
  other exception becomes status 500, with a detail of which the fixed leading text is
  kept. The framework's check of the returned dict against
  the response model is not part of the function.
\<close>

definition extract_itinerary ::
  "world \<Rightarrow> environment \<Rightarrow> trip_request \<Rightarrow> call list \<Rightarrow> response \<times> call list" where
  "extract_itinerary w env request calls =
     (if \<not> list_ex (\<lambda>domain. str_in domain (lower (url request))) valid_domains
      then (HTTPException 400 ''Please provide a valid TikTok, Instagram, or YouTube URL'', calls)
      else if \<not> key_set (OPENAI_API_KEY env)
      then (HTTPException 500 ''OpenAI API key not configured. Please set OPENAI_API_KEY environment variable.'', calls)
      else (case extract_content_from_url w (url request) calls of
              (content_data, calls1) \<Rightarrow>
                if \<not> truthy content_data
                then (HTTPException 422 ''Could not extract content from this URL. The video might be private or unavailable.'', calls1)
                else (case generate_itinerary w content_data (url request)
                             (trip_duration request) (preferences request) calls1 of
                        (Inl e, calls2) \<Rightarrow> (HTTPException 500 ''Error processing content: '', calls2)
                      | (Inr itinerary, calls2) \<Rightarrow>
                          if key_set (GOOGLE_PLACES_API_KEY env) then
                            (case enrich_locations w (places_module_key env) itinerary calls2 of
                               (Inl e, calls3) \<Rightarrow> (HTTPException 500 ''Error processing content: '', calls3)
                             | (Inr itinerary', calls3) \<Rightarrow> (Returned itinerary', calls3))
                          else (Returned itinerary, calls2))))"

section \<open>Notions used in the statements\<close>

text \<open>The days of an itinerary and the locations of a day, as lists.\<close>

definition days_of :: "json \<Rightarrow> json list" where
  "days_of itinerary =
     (case itinerary of
        JDict d \<Rightarrow> (case map_of d ''days'' of Some (JList ds) \<Rightarrow> ds | _ \<Rightarrow> [])
      | _ \<Rightarrow> [])"

definition locations_of :: "json \<Rightarrow> json list" where
  "locations_of day =
     (case day of
        JDict d \<Rightarrow> (case map_of d ''locations'' of Some (JList ls) \<Rightarrow> ls | _ \<Rightarrow> [])
      | _ \<Rightarrow> [])"

text \<open>
  The shape the data model gives an itinerary: a dict whose \<open>days\<close>, when present, is a
  list of dicts, each with a \<open>locations\<close> that, when present, is a list of dicts.
\<close>

definition wf_day :: "json \<Rightarrow> bool" where
  "wf_day day =
     (case day of
        JDict d \<Rightarrow>
          (case map_of d ''locations'' of
             None \<Rightarrow> True
           | Some v \<Rightarrow> (case v of JList ls \<Rightarrow> list_all is_dict ls | _ \<Rightarrow> False))
      | _ \<Rightarrow> False)"

definition wf_itinerary :: "json \<Rightarrow> bool" where
  "wf_itinerary itinerary =
     (case itinerary of
        JDict d \<Rightarrow>
          (case map_of d ''days'' of
             None \<Rightarrow> True
           | Some v \<Rightarrow> (case v of JList ds \<Rightarrow> list_all wf_day ds | _ \<Rightarrow> False))
      | _ \<Rightarrow> False)"

text \<open>The keys the enricher assigns.\<close>

definition enriched_keys :: "string set" where
  "enriched_keys = {''address'', ''coordinates'', ''rating'', ''price_level'',
                    ''google_maps_url'', ''image_url'', ''opening_hours''}"

text \<open>A statement of the update block leaves key \<open>k\<close> alone.\<close>

definition step_frame :: "string \<Rightarrow> ((string \<times> json) list \<Rightarrow> exn + (string \<times> json) list) \<Rightarrow> bool" where
  "step_frame k step = (\<forall>l l'. step l = Inr l' \<longrightarrow> map_of l' k = map_of l k)"

text \<open>\<open>location'\<close> is what enriching \<open>location\<close> returns, at some point of a run.\<close>

definition enriched_from :: "world \<Rightarrow> string option \<Rightarrow> json \<Rightarrow> json \<Rightarrow> json \<Rightarrow> bool" where
  "enriched_from w key destination location location' =
     (\<exists>calls. fst (enrich_single_location w key location destination calls) = Inr location')"

text \<open>\<open>day'\<close> is \<open>day\<close> with each location enriched in place: the other fields are
  the same, and the locations correspond one to one, in order.\<close>

definition day_enriched :: "world \<Rightarrow> string option \<Rightarrow> json \<Rightarrow> json \<Rightarrow> json \<Rightarrow> bool" where
  "day_enriched w key destination day day' =
     ((\<forall>k. k \<noteq> ''locations'' \<longrightarrow> field day' k = field day k)
      \<and> list_all2 (enriched_from w key destination) (locations_of day) (locations_of day'))"

text \<open>
  The list of calls a run has reached when it comes to a location: the calls made so
  far, extended by the calls of each location before it, and the same over whole days.
\<close>

fun calls_after_locations ::
  "world \<Rightarrow> string option \<Rightarrow> json \<Rightarrow> json list \<Rightarrow> call list \<Rightarrow> call list" where
  "calls_after_locations w key destination [] calls = calls"
| "calls_after_locations w key destination (location # rest) calls =
     calls_after_locations w key destination rest
       (snd (enrich_single_location w key location destination calls))"

fun calls_after_days ::
  "world \<Rightarrow> string option \<Rightarrow> json \<Rightarrow> json list \<Rightarrow> call list \<Rightarrow> call list" where
  "calls_after_days w key destination [] calls = calls"
| "calls_after_days w key destination (day # rest) calls =
     calls_after_days w key destination rest
       (calls_after_locations w key destination (locations_of day) calls)"

text \<open>
  \<open>location'\<close> is what enriching \<open>location\<close> returns when the run has made the calls
  \<open>calls\<close>: it is the location itself when the search call or the details call made for
  it fails, and the location updated from the details when both calls succeed with a
  place, a place id and details.
\<close>

definition enriched_at ::
  "world \<Rightarrow> string option \<Rightarrow> json \<Rightarrow> call list \<Rightarrow> json \<Rightarrow> json \<Rightarrow> bool" where
  "enriched_at w key destination calls location location' =
     (fst (enrich_single_location w key location destination calls) = Inr location'
      \<and> ((\<exists>e. http_json w (length calls) = Inl e \<or> http_json w (Suc (length calls)) = Inl e)
            \<longrightarrow> location' = location)
      \<and> (\<forall>loc ty data place place_id ddata details.
            key_set key \<and> location = JDict loc
            \<and> search_type (dict_get loc ''type'' JNull) = Inr ty
            \<and> http_json w (length calls) = Inr data \<and> search_result data = Inr place
            \<and> truthy place \<and> py_get place ''place_id'' JNull = Inr place_id \<and> truthy place_id
            \<and> http_json w (Suc (length calls)) = Inr ddata
            \<and> details_result ddata = Inr details \<and> truthy details
            \<longrightarrow> location' = JDict (update_location w key details loc)))"

text \<open>The same for a day: as many locations, each enriched at the calls the run has
  reached when it comes to it.\<close>

definition day_run :: "world \<Rightarrow> string option \<Rightarrow> json \<Rightarrow> call list \<Rightarrow> json \<Rightarrow> json \<Rightarrow> bool" where
  "day_run w key destination calls day day' =
     (length (locations_of day') = length (locations_of day)
      \<and> (\<forall>j < length (locations_of day).
            enriched_at w key destination
              (calls_after_locations w key destination (take j (locations_of day)) calls)
              (locations_of day ! j) (locations_of day' ! j)))"

text \<open>
  A small run for the concrete checks: the first call of the run times out, the second
  finds a place, the third returns details that carry only a name.
\<close>

definition example_replies :: "nat \<Rightarrow> exn + json" where
  "example_replies n =
     (if n = 1 then
        Inr (JDict [(''status'', JStr ''OK''),
                    (''results'', JList [JDict [(''place_id'', JStr ''p1'')]])])
      else if n = 2 then
        Inr (JDict [(''status'', JStr ''OK''), (''result'', JDict [(''name'', JStr ''Bar B'')])])
      else Inl (OtherError ''timed out''))"

definition example_world :: world where
  "example_world =
     \<lparr> extractor_result = (\<lambda>n. JNull),
       completion = (\<lambda>n. Inl (OtherError ''unused'')),
       http_json = example_replies,
       json_loads = (\<lambda>s. Inl JSONDecodeError),
       repr = (\<lambda>v. ''?'') \<rparr>"

definition example_itinerary :: json where
  "example_itinerary =
     JDict [(''destination'', JStr ''Rome''),
            (''days'',
             JList [JDict [(''day'', JInt 1),
                           (''locations'',
                            JList [JDict [(''name'', JStr ''A''), (''price_level'', JStr ''$$'')],
                                   JDict [(''name'', JStr ''B''), (''address'', JStr ''Old St''),
                                          (''price_level'', JStr ''$$'')]])]])]"

definition example_enriched :: json where
  "example_enriched =
     JDict [(''destination'', JStr ''Rome''),
            (''days'',
             JList [JDict [(''day'', JInt 1),
                           (''locations'',
                            JList [JDict [(''name'', JStr ''A''), (''price_level'', JStr ''$$'')],
                                   JDict [(''name'', JStr ''B''), (''address'', JStr ''Old St''),
                                          (''price_level'', JNull),
                                          (''coordinates'', JDict [(''lat'', JNull), (''lng'', JNull)]),
                                          (''rating'', JNull),
                                          (''google_maps_url'', JNull)]])]])]"

definition example_bar :: "(string \<times> json) list" where
  "example_bar = [(''name'', JStr ''B''), (''address'', JStr ''Old St''), (''price_level'', JStr ''$$'')]"

definition example_bar_enriched :: "(string \<times> json) list" where
  "example_bar_enriched =
     [(''name'', JStr ''B''), (''address'', JStr ''Old St''), (''price_level'', JNull),
      (''coordinates'', JDict [(''lat'', JNull), (''lng'', JNull)]), (''rating'', JNull),
      (''google_maps_url'', JNull)]"

text \<open>A second run: the search of the first location finds a place and its details
  fetch times out; the calls of the second location succeed.\<close>

definition failing_details_replies :: "nat \<Rightarrow> exn + json" where
  "failing_details_replies n =
     (if n = 0 then
        Inr (JDict [(''status'', JStr ''OK''),
                    (''results'', JList [JDict [(''place_id'', JStr ''p0'')]])])
      else if n = 2 then
        Inr (JDict [(''status'', JStr ''OK''),
                    (''results'', JList [JDict [(''place_id'', JStr ''p1'')]])])
      else if n = 3 then
        Inr (JDict [(''status'', JStr ''OK''), (''result'', JDict [(''name'', JStr ''Bar B'')])])
      else Inl (OtherError ''timed out''))"

definition failing_details_world :: world where
  "failing_details_world = example_world \<lparr> http_json := failing_details_replies \<rparr>"

text \<open>
  A generator for the concrete checks: it answers every completion with the given text,
  and its \<open>json_loads\<close> answers the texts of the checks as \<^verbatim>\<open>json.loads\<close> does, the
  object \<^verbatim>\<open>{"destination": "Rome"}\<close> with its dict and the other texts, none of which
  is JSON, with \<open>JSONDecodeError\<close>.
\<close>

definition example_loads :: "string \<Rightarrow> exn + json" where
  \<open>example_loads s =
     (if s = ''{"destination": "Rome"}'' then Inr (JDict [(''destination'', JStr ''Rome'')])
      else Inl JSONDecodeError)\<close>

definition answering :: "string \<Rightarrow> world" where
  "answering text =
     \<lparr> extractor_result = (\<lambda>n. JDict [(''title'', JStr ''Rome in a day''), (''creator'', JStr ''@x'')]),
       completion = (\<lambda>n. Inr (JStr text)),
       http_json = (\<lambda>n. Inl (OtherError ''timed out'')),
       json_loads = example_loads,
       repr = (\<lambda>v. ''?'') \<rparr>"

text \<open>The URL, in lower case, contains the domain.\<close>

definition mentions :: "string \<Rightarrow> string \<Rightarrow> bool" where
  "mentions u domain = (\<exists>before after. lower u = before @ domain @ after)"

text \<open>The recovery as the specification words it: the first brace-delimited
  substring, from the first \<open>{\<close> to the first \<open>}\<close> after it.\<close>

definition first_braces :: "string \<Rightarrow> string option" where
  "first_braces text =
     (let from_open = dropWhile (\<lambda>c. c \<noteq> CHR ''{'') text
      in if CHR ''}'' \<in> set from_open
         then Some (takeWhile (\<lambda>c. c \<noteq> CHR ''}'') from_open @ ''}'')
         else None)"

section \<open>Properties\<close>

subsection \<open>Price tiers\<close>

lemma convert_price_level_int:
  "convert_price_level (JInt n) =
     Inr (case map_of price_mapping n of None \<Rightarrow> JNull | Some label \<Rightarrow> JStr label)"
  by (simp add: convert_price_level_def hashable_def as_int_key_def split: option.split)

lemma price_mapping_out_of_range: "n < 0 \<or> 4 < n \<Longrightarrow> map_of price_mapping n = None"
  by (auto simp: price_mapping_def)

text \<open>
  Claim C6. The price-tier conversion is a total function from an optional integer to
  an optional label: an absent tier gives \<^verbatim>\<open>None\<close>, the tiers 0 to 4 give
  "Free", "$", "$$", "$$$" and "$$$$", and every other integer gives \<^verbatim>\<open>None\<close>;
  no such input raises.
\<close>

theorem convert_price_level_total:
  "convert_price_level JNull = Inr JNull
   \<and> convert_price_level (JInt 0) = Inr (JStr ''Free'')
   \<and> convert_price_level (JInt 1) = Inr (JStr ''$'')
   \<and> convert_price_level (JInt 2) = Inr (JStr ''$$'')
   \<and> convert_price_level (JInt 3) = Inr (JStr ''$$$'')
   \<and> convert_price_level (JInt 4) = Inr (JStr ''$$$$'')
   \<and> (\<forall>n. n < 0 \<or> 4 < n \<longrightarrow> convert_price_level (JInt n) = Inr JNull)"
proof -
  have absent: "convert_price_level JNull = Inr JNull"
    by (simp add: convert_price_level_def)
  have known: "convert_price_level (JInt 0) = Inr (JStr ''Free'')"
    "convert_price_level (JInt 1) = Inr (JStr ''$'')"
    "convert_price_level (JInt 2) = Inr (JStr ''$$'')"
    "convert_price_level (JInt 3) = Inr (JStr ''$$$'')"
    "convert_price_level (JInt 4) = Inr (JStr ''$$$$'')"
    by (simp_all add: convert_price_level_int price_mapping_def)
  have other: "\<forall>n. n < 0 \<or> 4 < n \<longrightarrow> convert_price_level (JInt n) = Inr JNull"
    by (simp add: convert_price_level_int price_mapping_out_of_range)
  from absent known other show ?thesis by blast
qed

theorem convert_price_level_total_witness:
  "((7::int) < 0 \<or> 4 < (7::int)) \<and> convert_price_level (JInt 7) = Inr JNull
   \<and> convert_price_level (JInt 2) = Inr (JStr ''$$'')"
  using convert_price_level_total by simp

subsection \<open>Subtitle cleaning: characters of the result\<close>

lemma split_on_sep_free: "l \<in> set (split_on sep s) \<Longrightarrow> sep \<notin> set l \<and> set l \<subseteq> set s"
proof (induction s arbitrary: l)
  case Nil
  then show ?case by simp
next
  case (Cons c cs)
  show ?case
  proof (cases "c = sep")
    case True
    with Cons show ?thesis by auto
  next
    case False
    show ?thesis
    proof (cases "split_on sep cs")
      case Nil
      with False Cons.prems show ?thesis by simp
    next
      case (Cons h t)
      with False Cons.prems have "l = c # h \<or> l \<in> set t" by simp
      moreover have "sep \<notin> set h \<and> set h \<subseteq> set cs" using Cons.IH[of h] Cons by simp
      moreover have "l \<in> set t \<Longrightarrow> sep \<notin> set l \<and> set l \<subseteq> set cs"
        using Cons.IH[of l] Cons by simp
      ultimately show ?thesis using False by auto
    qed
  qed
qed

lemma split_on_hd: "\<exists>h t. split_on sep s = h # t \<and> prefix h s"
proof (induction s)
  case Nil
  then show ?case by simp
next
  case (Cons c cs)
  then obtain h t where "split_on sep cs = h # t" "prefix h cs" by auto
  then show ?case by simp
qed

lemma split_on_sublist: "l \<in> set (split_on sep s) \<Longrightarrow> sublist l s"
proof (induction s arbitrary: l)
  case Nil
  then show ?case by simp
next
  case (Cons c cs)
  obtain h t where ht: "split_on sep cs = h # t" "prefix h cs"
    using split_on_hd[of sep cs] by auto
  from Cons.prems ht consider "l = []" | "l = c # h" | "l \<in> set (split_on sep cs)"
    by (auto split: if_splits)
  then show ?case
  proof cases
    case 1
    then show ?thesis by simp
  next
    case 2
    with ht have "prefix l (c # cs)" by simp
    then show ?thesis by (simp add: sublist_Cons_right)
  next
    case 3
    then have "sublist l cs" by (rule Cons.IH)
    then show ?thesis by (simp add: sublist_Cons_right)
  qed
qed

lemma set_strip: "set (strip s) \<subseteq> set s"
  unfolding strip_def by (auto dest!: set_dropWhileD)

lemma set_tag_end: "tag_end cs = Some r \<Longrightarrow> set r \<subseteq> set cs"
proof -
  assume a: "tag_end cs = Some r"
  let ?rest = "dropWhile (\<lambda>c. c \<noteq> CHR ''>'') cs"
  from a have "?rest \<noteq> []" and "r = tl ?rest"
    by (auto simp: tag_end_def Let_def split: if_splits)
  then have "set r \<subseteq> set ?rest" by (cases ?rest) auto
  then show ?thesis by (auto dest: set_dropWhileD)
qed

lemma set_remove_tags: "set (remove_tags s) \<subseteq> set s"
proof (induction s rule: remove_tags.induct)
  case 1
  then show ?case by simp
next
  case (2 c cs)
  show ?case
  proof (cases "c = CHR ''<''")
    case False
    with 2 show ?thesis by auto
  next
    case True
    show ?thesis
    proof (cases "tag_end cs")
      case None
      with True 2 show ?thesis by auto
    next
      case (Some r)
      with True 2 have "set (remove_tags r) \<subseteq> set r" by simp
      with set_tag_end[OF Some] Some True show ?thesis by auto
    qed
  qed
qed

lemma set_replace_nbsp: "set (replace_nbsp s) \<subseteq> insert (CHR '' '') (set s)"
proof (induction s rule: replace_nbsp.induct)
  case 1
  then show ?case by simp
next
  case (2 c cs)
  then show ?case by (auto dest: in_set_dropD)
qed

lemma clean_lines_chars:
  "x \<in> set (clean_lines ls acc) \<Longrightarrow>
     x \<in> set acc \<or> (\<exists>l \<in> set ls. set x \<subseteq> insert (CHR '' '') (set l))"
proof (induction ls arbitrary: acc)
  case Nil
  then show ?case by simp
next
  case (Cons l ls)
  let ?line = "replace_nbsp (remove_tags (strip l))"
  have line: "set ?line \<subseteq> insert (CHR '' '') (set l)"
    using set_replace_nbsp[of "remove_tags (strip l)"] set_remove_tags[of "strip l"]
      set_strip[of l] by blast
  from Cons.prems have "x \<in> set (clean_lines ls acc) \<or> x \<in> set (clean_lines ls (acc @ [?line]))"
    by (simp add: Let_def split: if_splits)
  then show ?case
  proof
    assume "x \<in> set (clean_lines ls acc)"
    from Cons.IH[OF this] show ?thesis by auto
  next
    assume "x \<in> set (clean_lines ls (acc @ [?line]))"
    from Cons.IH[OF this] line show ?thesis by auto
  qed
qed

lemma set_join: "set (join sep xs) \<subseteq> set sep \<union> \<Union> (set ` set xs)"
  by (induction sep xs rule: join.induct) auto

lemma clean_subtitles_newline_free: "CHR 0x0A \<notin> set (clean_subtitles content format)"
proof
  assume "CHR 0x0A \<in> set (clean_subtitles content format)"
  then obtain x where x: "x \<in> set (clean_lines (split_on (CHR 0x0A) content) [])"
    and nl: "CHR 0x0A \<in> set x"
    using set_join[of "'' ''" "clean_lines (split_on (CHR 0x0A) content) []"]
    by (auto simp: clean_subtitles_def)
  from clean_lines_chars[OF x] obtain l where "l \<in> set (split_on (CHR 0x0A) content)"
    and "set x \<subseteq> insert (CHR '' '') (set l)" by auto
  with nl split_on_sep_free[of l "CHR 0x0A" content] show False by auto
qed


subsection \<open>Subtitle cleaning: running it twice\<close>

lemma remove_tags_id: "CHR ''<'' \<notin> set s \<Longrightarrow> remove_tags s = s"
  by (induction s) auto

lemma replace_nbsp_id: "\<not> sublist ''&nbsp;'' s \<Longrightarrow> replace_nbsp s = s"
proof (induction s)
  case Nil
  then show ?case by simp
next
  case (Cons c cs)
  from Cons.prems have np: "prefix ''&nbsp;'' (c # cs) = False" and "\<not> sublist ''&nbsp;'' cs"
    by (auto simp: sublist_Cons_right)
  with Cons.IH have "replace_nbsp cs = cs" by simp
  then show ?case by (simp only: replace_nbsp.simps np if_False)
qed

lemma sublist_strip: "sublist (strip s) s"
proof -
  have "suffix (dropWhile isspace s) s" by (rule suffix_dropWhile)
  moreover have "prefix (strip s) (dropWhile isspace s)"
  proof -
    have "suffix (dropWhile isspace (rev (dropWhile isspace s))) (rev (dropWhile isspace s))"
      by (rule suffix_dropWhile)
    then show ?thesis unfolding strip_def by (simp add: suffix_to_prefix)
  qed
  ultimately show ?thesis by (auto simp: sublist_altdef')
qed

lemma strip_trimmed: "strip s \<noteq> [] \<Longrightarrow> trimmed (strip s)"
proof -
  assume ne: "strip s \<noteq> []"
  let ?a = "dropWhile isspace s"
  let ?b = "dropWhile isspace (rev ?a)"
  from ne have b: "?b \<noteq> []" by (simp add: strip_def)
  then have hb: "\<not> isspace (hd ?b)" by (rule hd_dropWhile)
  have a: "?a \<noteq> []"
  proof
    assume e: "?a = []"
    have "?b = []" by (simp only: e rev.simps dropWhile.simps)
    with b show False ..
  qed
  then have ha: "\<not> isspace (hd ?a)" by (rule hd_dropWhile)
  have last: "last (strip s) = hd ?b" using b by (simp add: strip_def last_rev)
  have "prefix (strip s) ?a"
    using suffix_dropWhile[of isspace "rev ?a"] by (simp add: strip_def suffix_to_prefix)
  with ne have "hd (strip s) = hd ?a" by (auto simp: prefix_def)
  with ha hb last ne show ?thesis by (simp add: trimmed_def)
qed

lemma trimmed_strip: "trimmed s \<Longrightarrow> strip s = s"
proof -
  assume t: "trimmed s"
  then have 1: "dropWhile isspace s = s" by (cases s) (auto simp: trimmed_def)
  from t have "rev s \<noteq> []" and "\<not> isspace (hd (rev s))" by (auto simp: trimmed_def hd_rev)
  then have "dropWhile isspace (rev s) = rev s" by (cases "rev s") auto
  with 1 show ?thesis by (simp add: strip_def)
qed

lemma clean_lines_filter:
  "\<forall>l \<in> set ls. CHR ''<'' \<notin> set l \<and> \<not> sublist ''&nbsp;'' l \<Longrightarrow>
     clean_lines ls acc = acc @ filter kept (map strip ls)"
proof (induction ls arbitrary: acc)
  case Nil
  then show ?case by simp
next
  case (Cons l ls)
  from Cons.prems have "CHR ''<'' \<notin> set (strip l)" using set_strip[of l] by auto
  then have 1: "remove_tags (strip l) = strip l" by (rule remove_tags_id)
  from Cons.prems have "\<not> sublist ''&nbsp;'' (strip l)"
    using sublist_strip[of l] sublist_order.order_trans by auto
  then have 2: "replace_nbsp (strip l) = strip l" by (rule replace_nbsp_id)
  from Cons.prems have IH: "\<And>acc. clean_lines ls acc = acc @ filter kept (map strip ls)"
    using Cons.IH by simp
  show ?case by (simp add: Let_def 1 2 IH kept_def[abs_def])
qed

text \<open>A pattern without a space cannot straddle the spaces that join the lines.\<close>

lemma sublist_join:
  "CHR '' '' \<notin> set p \<Longrightarrow> p \<noteq> [] \<Longrightarrow> sublist p (join '' '' ks) \<Longrightarrow> \<exists>k \<in> set ks. sublist p k"
proof (induction "'' ''" ks rule: join.induct)
  case 1
  then show ?case by simp
next
  case (2 x)
  then show ?case by simp
next
  case (3 x y ys)
  let ?r = "join '' '' (y # ys)"
  from 3 have "sublist p (x @ CHR '' '' # ?r)" by simp
  then consider "sublist p x" | "sublist p (CHR '' '' # ?r)"
    | p1 p2 where "p = p1 @ p2" "suffix p1 x" "prefix p2 (CHR '' '' # ?r)"
    by (auto simp: sublist_append)
  then show ?case
  proof cases
    case 1
    then show ?thesis by auto
  next
    case 2
    with 3 have "sublist p ?r" by (auto simp: sublist_Cons_right prefix_Cons)
    with 3 show ?thesis by auto
  next
    case 3
    with \<open>CHR '' '' \<notin> set p\<close> have "p2 = []" by (auto simp: prefix_Cons)
    with 3 have "sublist p x" by (auto simp: sublist_altdef)
    then show ?thesis by auto
  qed
qed

lemma prefix_join:
  "CHR '' '' \<notin> set p \<Longrightarrow> prefix p (join '' '' (k # ks)) \<Longrightarrow> prefix p k"
proof (cases ks)
  case Nil
  assume "prefix p (join '' '' (k # ks))"
  with Nil show ?thesis by simp
next
  case (Cons y ys)
  assume sp: "CHR '' '' \<notin> set p" and "prefix p (join '' '' (k # ks))"
  with Cons have "prefix p (k @ CHR '' '' # join '' '' (y # ys))" by simp
  then show ?thesis using sp by (auto simp: prefix_append prefix_Cons)
qed

lemma match_timestamp_prefix:
  "match_timestamp s \<longleftrightarrow> (\<exists>p. prefix p s \<and> length p = 5 \<and> match_timestamp p)"
proof
  assume "match_timestamp s"
  then obtain a b c d e r where s: "s = a # b # c # d # e # r"
    by (auto simp: match_timestamp_def split: list.splits)
  with \<open>match_timestamp s\<close> have "match_timestamp [a, b, c, d, e]"
    by (simp add: match_timestamp_def)
  moreover have "prefix [a, b, c, d, e] s" using s by simp
  ultimately show "\<exists>p. prefix p s \<and> length p = 5 \<and> match_timestamp p" by fastforce
next
  assume "\<exists>p. prefix p s \<and> length p = 5 \<and> match_timestamp p"
  then obtain p where p: "prefix p s" "match_timestamp p" by auto
  then obtain a b c d e r where "p = a # b # c # d # e # r"
    by (auto simp: match_timestamp_def split: list.splits)
  with p show "match_timestamp s"
    by (auto simp: match_timestamp_def prefix_def)
qed

lemma match_timestamp_no_space:
  "match_timestamp p \<Longrightarrow> length p = 5 \<Longrightarrow> CHR '' '' \<notin> set p"
  by (auto simp: match_timestamp_def is_decimal_def split: list.splits)

lemma isdigit_join: "isdigit (join '' '' (k # ks)) \<Longrightarrow> isdigit k"
proof (cases ks)
  case Nil
  assume "isdigit (join '' '' (k # ks))"
  with Nil show ?thesis by simp
next
  case (Cons y ys)
  assume "isdigit (join '' '' (k # ks))"
  with Cons have "isdigit_char (CHR '' '')" by (simp add: isdigit_def)
  then show ?thesis by (simp add: isdigit_char_def is_decimal_def)
qed

lemma join_trimmed:
  "ks \<noteq> [] \<Longrightarrow> \<forall>k \<in> set ks. trimmed k \<Longrightarrow> trimmed (join '' '' ks)"
proof (induction "'' ''" ks rule: join.induct)
  case 1
  then show ?case by simp
next
  case (2 x)
  then show ?case by simp
next
  case (3 x y ys)
  then have "trimmed (join '' '' (y # ys))" and "trimmed x" by auto
  then show ?case by (auto simp: trimmed_def)
qed

lemma join_kept:
  assumes "ks \<noteq> []" and "\<forall>k \<in> set ks. kept k"
  shows "kept (join '' '' ks)"
proof -
  from assms obtain k ks' where ks: "ks = k # ks'" by (cases ks) auto
  with assms have k: "kept k" by simp
  let ?y = "join '' '' ks"
  have "?y \<noteq> []" using ks k by (cases ks') (auto simp: kept_def)
  moreover have "\<not> str_in ''-->'' ?y"
  proof
    assume "str_in ''-->'' ?y"
    then have "\<exists>k \<in> set ks. sublist ''-->'' k"
      using sublist_join[of "''-->''" ks] by (simp add: str_in_def)
    with assms show False by (auto simp: kept_def str_in_def)
  qed
  moreover have "\<not> prefix ''WEBVTT'' ?y"
    using prefix_join[of "''WEBVTT''" k ks'] k ks by (auto simp: kept_def)
  moreover have "\<not> isdigit ?y" using isdigit_join[of k ks'] k ks by (auto simp: kept_def)
  moreover have "\<not> match_timestamp ?y"
  proof
    assume "match_timestamp ?y"
    then obtain p where p: "prefix p ?y" "length p = 5" "match_timestamp p"
      using match_timestamp_prefix[of ?y] by auto
    then have "prefix p k" using prefix_join[of p k ks'] match_timestamp_no_space ks by auto
    with p have "match_timestamp k" using match_timestamp_prefix[of k] by auto
    with k show False by (simp add: kept_def)
  qed
  ultimately show ?thesis by (simp add: kept_def)
qed

lemma split_on_absent: "sep \<notin> set s \<Longrightarrow> split_on sep s = [s]"
  by (induction s) auto

text \<open>
  Claim C10. For every input text and every format argument, the text returned by
  \<open>clean_subtitles\<close> contains no newline character: the surviving lines are joined into
  one line.
\<close>

theorem clean_subtitles_no_newline: "CHR 0x0A \<notin> set (clean_subtitles content format)"
  by (rule clean_subtitles_newline_free)

text \<open>
  Claim C5, as stated: cleaning the cleaned text gives the cleaned text again. It fails:
  the skip tests run before the tags are removed, so the line \<^verbatim>\<open><b>12</b>\<close> is kept
  and becomes \<^verbatim>\<open>12\<close>, which a second run drops as a cue index.
\<close>

theorem clean_subtitles_not_idempotent:
  "clean_subtitles (clean_subtitles ''<b>12</b>'' ''vtt'') ''vtt'' \<noteq> clean_subtitles ''<b>12</b>'' ''vtt''"
proof -
  have 1: "clean_subtitles ''<b>12</b>'' ''vtt'' = ''12''"
    by code_simp
  have 2: "clean_subtitles ''12'' ''vtt'' = []"
    by code_simp
  show ?thesis unfolding 1 2 by simp
qed

text \<open>
  Claim C5, amended. For every input text that contains no \<open><\<close> character and no
  \<^verbatim>\<open>&nbsp;\<close> entity, and every format, cleaning the cleaned text gives the cleaned
  text again.
\<close>

theorem clean_subtitles_idempotent_plain:
  assumes lt: "CHR ''<'' \<notin> set content" and amp: "\<not> str_in ''&nbsp;'' content"
  shows "clean_subtitles (clean_subtitles content format) format = clean_subtitles content format"
proof -
  let ?ls = "split_on (CHR 0x0A) content"
  let ?ks = "filter kept (map strip ?ls)"
  let ?y = "join '' '' ?ks"
  have lines: "\<forall>l \<in> set ?ls. CHR ''<'' \<notin> set l \<and> \<not> sublist ''&nbsp;'' l"
  proof
    fix l assume l: "l \<in> set ?ls"
    then have "set l \<subseteq> set content" using split_on_sep_free by blast
    moreover have "sublist l content" using l by (rule split_on_sublist)
    ultimately show "CHR ''<'' \<notin> set l \<and> \<not> sublist ''&nbsp;'' l"
      using lt amp sublist_order.order_trans by (auto simp: str_in_def)
  qed
  have y: "clean_subtitles content format = ?y"
    by (simp add: clean_subtitles_def clean_lines_filter[OF lines])
  show ?thesis
  proof (cases "?ks = []")
    case True
    then have "?y = []" by simp
    then show ?thesis unfolding y by (simp add: clean_subtitles_def strip_def)
  next
    case False
    have tr: "\<forall>k \<in> set ?ks. trimmed k" by (auto simp: kept_def intro: strip_trimmed)
    have "trimmed ?y" using join_trimmed[OF False tr] .
    then have st: "strip ?y = ?y" by (rule trimmed_strip)
    have k: "kept ?y" using join_kept[OF False] by simp
    have chars: "set ?y \<subseteq> insert (CHR '' '') (set content)"
      using set_join[of "'' ''" ?ks] set_strip split_on_sep_free[of _ "CHR 0x0A" content]
      by fastforce
    have nl: "CHR 0x0A \<notin> set ?y"
      using clean_subtitles_newline_free[of content format] y by simp
    have "CHR ''<'' \<notin> set ?y" using chars lt by auto
    then have rt: "remove_tags ?y = ?y" by (rule remove_tags_id)
    have "\<not> sublist ''&nbsp;'' ?y"
    proof
      assume "sublist ''&nbsp;'' ?y"
      then obtain k where "k \<in> set ?ks" "sublist ''&nbsp;'' k"
        using sublist_join[of "''&nbsp;''" ?ks] by auto
      then obtain l where "l \<in> set ?ls" "sublist ''&nbsp;'' (strip l)" by auto
      with lines show False using sublist_strip sublist_order.order_trans by blast
    qed
    then have rn: "replace_nbsp ?y = ?y" by (rule replace_nbsp_id)
    have "clean_lines [?y] [] = [?y]"
      using k st rt rn unfolding kept_def by (simp add: Let_def)
    then have "clean_subtitles ?y format = ?y"
      using split_on_absent[OF nl] by (simp add: clean_subtitles_def)
    then show ?thesis unfolding y .
  qed
qed

theorem clean_subtitles_idempotent_plain_witness:
  "CHR ''<'' \<notin> set (''WEBVTT'' @ [CHR 0x0A] @ ''00:01 --> 00:02'' @ [CHR 0x0A] @ '' Hello  '' @ [CHR 0x0A] @ ''7'' @ [CHR 0x0A] @ ''you'')
   \<and> \<not> str_in ''&nbsp;'' (''WEBVTT'' @ [CHR 0x0A] @ ''00:01 --> 00:02'' @ [CHR 0x0A] @ '' Hello  '' @ [CHR 0x0A] @ ''7'' @ [CHR 0x0A] @ ''you'')
   \<and> clean_subtitles (''WEBVTT'' @ [CHR 0x0A] @ ''00:01 --> 00:02'' @ [CHR 0x0A] @ '' Hello  '' @ [CHR 0x0A] @ ''7'' @ [CHR 0x0A] @ ''you'') ''vtt'' = ''Hello you''
   \<and> clean_subtitles ''Hello you'' ''vtt'' = ''Hello you''"
proof -
  let ?c = "''WEBVTT'' @ [CHR 0x0A] @ ''00:01 --> 00:02'' @ [CHR 0x0A] @ '' Hello  '' @ [CHR 0x0A] @ ''7'' @ [CHR 0x0A] @ ''you''"
  have 1: "CHR ''<'' \<notin> set ?c" by simp
  have 2: "\<not> str_in ''&nbsp;'' ?c" by code_simp
  have 3: "clean_subtitles ?c ''vtt'' = ''Hello you''" by code_simp
  from clean_subtitles_idempotent_plain[OF 1 2, of "''vtt''"] 1 2 3 show ?thesis by simp
qed

subsection \<open>Enrichment\<close>

lemma and_then_Inr: "and_then m f = Inr y \<longleftrightarrow> (\<exists>x. m = Inr x \<and> f x = Inr y)"
  by (cases m) (auto simp: and_then_def)

lemma and_then_Inl_left [simp]: "and_then (Inl e) f = Inl e"
  by (simp add: and_then_def)

lemma and_then_Inr_left [simp]: "and_then (Inr x) f = f x"
  by (simp add: and_then_def)

lemma map_of_dict_set: "map_of (dict_set d k v) k' = (if k' = k then Some v else map_of d k')"
  by (simp add: dict_set_def update_conv')

lemma run_updates_frame:
  "list_all (step_frame k) steps \<Longrightarrow> map_of (run_updates steps l) k = map_of l k"
proof (induction steps arbitrary: l)
  case Nil
  then show ?case by simp
next
  case (Cons step steps)
  show ?case
  proof (cases "step l")
    case (Inl e)
    then show ?thesis by simp
  next
    case (Inr l')
    with Cons.prems have "map_of l' k = map_of l k" by (simp add: step_frame_def)
    moreover from Cons have "map_of (run_updates steps l') k = map_of l' k" by simp
    ultimately show ?thesis using Inr by simp
  qed
qed

lemma set_address_frame: "k \<noteq> ''address'' \<Longrightarrow> step_frame k (set_address details)"
  by (auto simp: step_frame_def set_address_def and_then_Inr map_of_dict_set)

lemma set_coordinates_frame: "k \<noteq> ''coordinates'' \<Longrightarrow> step_frame k (set_coordinates details)"
  by (auto simp: step_frame_def set_coordinates_def and_then_Inr map_of_dict_set)

lemma set_rating_frame: "k \<noteq> ''rating'' \<Longrightarrow> step_frame k (set_rating details)"
  by (auto simp: step_frame_def set_rating_def and_then_Inr map_of_dict_set)

lemma set_price_level_frame: "k \<noteq> ''price_level'' \<Longrightarrow> step_frame k (set_price_level details)"
  by (auto simp: step_frame_def set_price_level_def and_then_Inr map_of_dict_set)

lemma set_google_maps_url_frame:
  "k \<noteq> ''google_maps_url'' \<Longrightarrow> step_frame k (set_google_maps_url details)"
  by (auto simp: step_frame_def set_google_maps_url_def and_then_Inr map_of_dict_set)

lemma set_image_url_frame: "k \<noteq> ''image_url'' \<Longrightarrow> step_frame k (set_image_url w key details)"
  by (auto simp: step_frame_def set_image_url_def and_then_Inr map_of_dict_set split: if_splits)

lemma set_opening_hours_frame:
  "k \<noteq> ''opening_hours'' \<Longrightarrow> step_frame k (set_opening_hours details)"
  by (auto simp: step_frame_def set_opening_hours_def and_then_Inr map_of_dict_set split: if_splits)

lemma update_location_frame:
  assumes "k \<notin> enriched_keys"
  shows "map_of (update_location w key details loc) k = map_of loc k"
proof -
  from assms have k: "k \<noteq> ''address''" "k \<noteq> ''coordinates''" "k \<noteq> ''rating''"
    "k \<noteq> ''price_level''" "k \<noteq> ''google_maps_url''" "k \<noteq> ''image_url''"
    "k \<noteq> ''opening_hours''"
    by (auto simp: enriched_keys_def)
  show ?thesis unfolding update_location_def
    by (rule run_updates_frame)
      (simp add: k set_address_frame set_coordinates_frame set_rating_frame
        set_price_level_frame set_google_maps_url_frame set_image_url_frame
        set_opening_hours_frame)
qed

lemma update_location_address:
  assumes "details = JDict dd" and "map_of dd ''formatted_address'' = None"
  shows "dict_get (update_location w key details loc) ''address'' JNull = dict_get loc ''address'' JNull"
proof -
  let ?l1 = "dict_set loc ''address'' (dict_get loc ''address'' JNull)"
  have 1: "set_address details loc = Inr ?l1"
    using assms by (simp add: set_address_def py_get_def dict_get_def)
  have "update_location w key details loc =
      run_updates [set_coordinates details, set_rating details,
        set_price_level details, set_google_maps_url details, set_image_url w key details,
        set_opening_hours details] ?l1"
    by (simp add: update_location_def 1)
  moreover have "map_of (run_updates [set_coordinates details, set_rating details,
        set_price_level details, set_google_maps_url details, set_image_url w key details,
        set_opening_hours details] ?l1) ''address'' = map_of ?l1 ''address''"
    by (rule run_updates_frame)
      (simp add: set_coordinates_frame set_rating_frame
        set_price_level_frame set_google_maps_url_frame set_image_url_frame
        set_opening_hours_frame)
  ultimately show ?thesis by (simp add: dict_get_def map_of_dict_set)
qed

text \<open>What one location's enrichment can return for a dict.\<close>

lemma enrich_single_location_cases:
  "\<exists>calls'. enrich_single_location w key (JDict loc) dest calls = (Inr (JDict loc), calls')
   \<or> (\<exists>data place place_id ddata details.
         http_json w (length calls) = Inr data \<and> search_result data = Inr place \<and> truthy place
         \<and> py_get place ''place_id'' JNull = Inr place_id \<and> truthy place_id
         \<and> http_json w (Suc (length calls)) = Inr ddata \<and> details_result ddata = Inr details
         \<and> truthy details
         \<and> enrich_single_location w key (JDict loc) dest calls =
             (Inr (JDict (update_location w key details loc)), calls'))"
  by (auto simp: enrich_single_location_def search_place_def get_place_details_def and_then_Inr
      split: sum.splits prod.splits if_splits)


lemma enrich_single_location_dict:
  "\<exists>loc' calls'. enrich_single_location w key (JDict loc) dest calls = (Inr (JDict loc'), calls')"
  using enrich_single_location_cases[of w key loc dest calls] by blast

lemma enrich_single_location_failed_call:
  assumes "http_json w (length calls) = Inl e \<or> http_json w (Suc (length calls)) = Inl e"
  shows "fst (enrich_single_location w key (JDict loc) dest calls) = Inr (JDict loc)"
  using enrich_single_location_cases[of w key loc dest calls] assms by auto

lemma enrich_single_location_frame:
  assumes "enrich_single_location w key (JDict loc) dest calls = (Inr l', calls')"
    and "k \<notin> enriched_keys"
  shows "field l' k = field (JDict loc) k"
  using enrich_single_location_cases[of w key loc dest calls] assms
  by (auto simp: field_def dict_get_def update_location_frame)

lemma enrich_each_result:
  "enrich_each w key dest locs acc calls = (Inr res, calls') \<Longrightarrow>
     \<exists>out. res = acc @ out \<and> list_all2 (enriched_from w key dest) locs out"
proof (induction locs arbitrary: acc calls)
  case Nil
  then show ?case by simp
next
  case (Cons l locs)
  from Cons.prems obtain l' c1 where
    1: "enrich_single_location w key l dest calls = (Inr l', c1)"
    and 2: "enrich_each w key dest locs (acc @ [l']) c1 = (Inr res, calls')"
    by (auto split: prod.splits sum.splits)
  from Cons.IH[OF 2] obtain out where "res = (acc @ [l']) @ out"
    and "list_all2 (enriched_from w key dest) locs out" by blast
  moreover from 1 have "enriched_from w key dest l l'"
    unfolding enriched_from_def by (metis fst_conv)
  ultimately have "res = acc @ (l' # out) \<and> list_all2 (enriched_from w key dest) (l # locs) (l' # out)"
    by simp
  then show ?case by blast
qed

lemma enrich_each_total:
  "list_all is_dict locs \<Longrightarrow> \<exists>res calls'. enrich_each w key dest locs acc calls = (Inr res, calls')"
proof (induction locs arbitrary: acc calls)
  case Nil
  then show ?case by simp
next
  case (Cons l locs)
  then obtain loc where "l = JDict loc" by (auto simp: is_dict_def split: json.splits)
  then obtain loc' c1 where "enrich_single_location w key l dest calls = (Inr (JDict loc'), c1)"
    using enrich_single_location_dict by blast
  moreover from Cons obtain res calls' where
    "enrich_each w key dest locs (acc @ [JDict loc']) c1 = (Inr res, calls')" by fastforce
  ultimately show ?case by simp
qed

lemma enrich_day_result:
  assumes "wf_day day"
  shows "\<exists>day' calls'. enrich_day w key dest day calls = (Inr day', calls')
           \<and> day_enriched w key dest day day'"
proof -
  from assms obtain d where d: "day = JDict d" by (auto simp: wf_day_def split: json.splits)
  have ls: "and_then (py_get day ''locations'' (JList [])) py_iter = Inr (locations_of day)"
    and dicts: "list_all is_dict (locations_of day)"
    using assms d
    by (auto simp: wf_day_def locations_of_def py_get_def dict_get_def py_iter_def
        split: option.splits json.splits)
  from enrich_each_total[OF dicts] obtain res calls' where
    e: "enrich_each w key dest (locations_of day) [] calls = (Inr res, calls')" by blast
  from enrich_each_result[OF e] have r: "list_all2 (enriched_from w key dest) (locations_of day) res"
    by simp
  let ?day' = "JDict (dict_set d ''locations'' (JList res))"
  have "enrich_day w key dest day calls = (Inr ?day', calls')"
    using ls e unfolding d by (simp add: enrich_day_def)
  moreover have "locations_of ?day' = res" by (simp add: locations_of_def map_of_dict_set)
  moreover have "\<forall>k. k \<noteq> ''locations'' \<longrightarrow> field ?day' k = field day k"
    by (simp add: field_def dict_get_def map_of_dict_set d)
  ultimately show ?thesis using r by (auto simp: day_enriched_def)
qed

lemma enrich_days_result:
  "list_all wf_day days \<Longrightarrow>
     \<exists>days' calls'. enrich_days w key dest days calls = (Inr days', calls')
        \<and> list_all2 (day_enriched w key dest) days days'"
proof (induction days arbitrary: calls)
  case Nil
  then show ?case by simp
next
  case (Cons day days)
  then obtain day' c1 where 1: "enrich_day w key dest day calls = (Inr day', c1)"
    and 2: "day_enriched w key dest day day'"
    using enrich_day_result[of day w key dest calls] by auto
  from Cons obtain days' c2 where 3: "enrich_days w key dest days c1 = (Inr days', c2)"
    and 4: "list_all2 (day_enriched w key dest) days days'" by fastforce
  from 1 3 have "enrich_days w key dest (day # days) calls = (Inr (day' # days'), c2)" by simp
  with 2 4 show ?case by auto
qed

lemma enriched_from_self: "\<not> key_set key \<Longrightarrow> enriched_from w key dest l l"
  by (simp add: enriched_from_def enrich_single_location_def)

lemma day_enriched_self: "\<not> key_set key \<Longrightarrow> day_enriched w key dest day day"
  by (simp add: day_enriched_def list_all2_same enriched_from_self)

lemma enrich_locations_result:
  assumes "wf_itinerary itinerary"
  shows "\<exists>itinerary' calls'.
           enrich_locations w key itinerary calls = (Inr itinerary', calls')
           \<and> (\<forall>k. k \<noteq> ''days'' \<longrightarrow> field itinerary' k = field itinerary k)
           \<and> list_all2 (day_enriched w key (field_or itinerary ''destination'' (JStr [])))
                (days_of itinerary) (days_of itinerary')"
proof (cases "key_set key")
  case False
  then have "enrich_locations w key itinerary calls = (Inr itinerary, calls)"
    by (simp add: enrich_locations_def)
  moreover have "list_all2 (day_enriched w key (field_or itinerary ''destination'' (JStr [])))
      (days_of itinerary) (days_of itinerary)"
    using False by (simp add: list_all2_same day_enriched_self)
  ultimately show ?thesis by auto
next
  case True
  from assms obtain d where d: "itinerary = JDict d"
    by (auto simp: wf_itinerary_def split: json.splits)
  let ?dest = "field_or itinerary ''destination'' (JStr [])"
  have dest: "py_get itinerary ''destination'' (JStr []) = Inr ?dest"
    by (simp add: d py_get_def field_or_def)
  have days: "and_then (py_get itinerary ''days'' (JList [])) py_iter = Inr (days_of itinerary)"
    and wf: "list_all wf_day (days_of itinerary)"
    using assms d
    by (auto simp: wf_itinerary_def days_of_def py_get_def dict_get_def py_iter_def
        split: option.splits json.splits)
  from enrich_days_result[OF wf] obtain days' calls' where
    e: "enrich_days w key ?dest (days_of itinerary) calls = (Inr days', calls')"
    and r: "list_all2 (day_enriched w key ?dest) (days_of itinerary) days'" by blast
  show ?thesis
  proof (cases "\<exists>ds. map_of d ''days'' = Some (JList ds)")
    case True
    let ?it' = "JDict (dict_set d ''days'' (JList days'))"
    have "enrich_locations w key itinerary calls = (Inr ?it', calls')"
      using True \<open>key_set key\<close> dest days e unfolding d
      by (auto simp: enrich_locations_def)
    moreover have "days_of ?it' = days'" by (simp add: days_of_def map_of_dict_set)
    moreover have "\<forall>k. k \<noteq> ''days'' \<longrightarrow> field ?it' k = field itinerary k"
      by (simp add: field_def dict_get_def map_of_dict_set d)
    ultimately show ?thesis using r by auto
  next
    case False
    then have none: "map_of d ''days'' = None"
      using assms d by (auto simp: wf_itinerary_def split: option.splits json.splits)
    then have empty: "days_of itinerary = []" by (simp add: days_of_def d)
    with r have "days' = []" by simp
    have "enrich_locations w key itinerary calls = (Inr itinerary, calls')"
      using none \<open>key_set key\<close> dest days e unfolding d
      by (auto simp: enrich_locations_def)
    with empty show ?thesis by auto
  qed
qed


lemma wf_day_locations: "wf_day day \<Longrightarrow> list_all is_dict (locations_of day)"
  by (auto simp: wf_day_def locations_of_def split: json.splits option.splits)

lemma wf_itinerary_days: "wf_itinerary itinerary \<Longrightarrow> list_all wf_day (days_of itinerary)"
  by (auto simp: wf_itinerary_def days_of_def split: json.splits option.splits)

lemma example_run:
  "enrich_locations example_world (Some ''k'') example_itinerary [] =
     (Inr example_enriched,
      [TextSearch (JStr ''A'') (JStr ''Rome'') None, TextSearch (JStr ''B'') (JStr ''Rome'') None,
       PlaceDetails (JStr ''p1'')])"
  by code_simp

lemma example_wf: "wf_itinerary example_itinerary"
  by code_simp

lemma enrich_single_location_success:
  assumes "key_set key" and "search_type (dict_get loc ''type'' JNull) = Inr ty"
    and "http_json w (length calls) = Inr data" and "search_result data = Inr place"
    and "truthy place" and "py_get place ''place_id'' JNull = Inr place_id" and "truthy place_id"
    and "http_json w (Suc (length calls)) = Inr ddata"
    and "details_result ddata = Inr details" and "truthy details"
  shows "fst (enrich_single_location w key (JDict loc) dest calls) =
           Inr (JDict (update_location w key details loc))"
  using assms
  by (simp add: enrich_single_location_def search_place_def get_place_details_def)

lemma enriched_at_dict:
  assumes "is_dict l" and "fst (enrich_single_location w key l dest cs) = Inr l'"
  shows "enriched_at w key dest cs l l'"
proof -
  from assms(1) obtain loc where l: "l = JDict loc" by (cases l) (simp_all add: is_dict_def)
  have b: "(\<exists>e. http_json w (length cs) = Inl e \<or> http_json w (Suc (length cs)) = Inl e)
            \<longrightarrow> l' = l"
    using enrich_single_location_failed_call[of w cs _ key loc dest] assms(2) l by auto
  have c: "\<forall>loc ty data place place_id ddata details.
            key_set key \<and> l = JDict loc
            \<and> search_type (dict_get loc ''type'' JNull) = Inr ty
            \<and> http_json w (length cs) = Inr data \<and> search_result data = Inr place
            \<and> truthy place \<and> py_get place ''place_id'' JNull = Inr place_id \<and> truthy place_id
            \<and> http_json w (Suc (length cs)) = Inr ddata
            \<and> details_result ddata = Inr details \<and> truthy details
            \<longrightarrow> l' = JDict (update_location w key details loc)"
  proof (intro allI impI)
    fix loc2 ty data place place_id ddata details
    assume h: "key_set key \<and> l = JDict loc2
            \<and> search_type (dict_get loc2 ''type'' JNull) = Inr ty
            \<and> http_json w (length cs) = Inr data \<and> search_result data = Inr place
            \<and> truthy place \<and> py_get place ''place_id'' JNull = Inr place_id \<and> truthy place_id
            \<and> http_json w (Suc (length cs)) = Inr ddata
            \<and> details_result ddata = Inr details \<and> truthy details"
    then have "fst (enrich_single_location w key (JDict loc2) dest cs) =
           Inr (JDict (update_location w key details loc2))"
      by (intro enrich_single_location_success[of key loc2 ty w cs data place place_id ddata details])
        simp_all
    with h assms(2) show "l' = JDict (update_location w key details loc2)" by simp
  qed
  from assms(2) b c show ?thesis unfolding enriched_at_def by blast
qed

lemma enrich_each_run:
  "list_all is_dict locs \<Longrightarrow>
     \<exists>outs. enrich_each w key dest locs acc calls =
              (Inr (acc @ outs), calls_after_locations w key dest locs calls)
        \<and> length outs = length locs
        \<and> (\<forall>j < length locs.
              enriched_at w key dest (calls_after_locations w key dest (take j locs) calls)
                (locs ! j) (outs ! j))"
proof (induction locs arbitrary: acc calls)
  case Nil
  then show ?case by simp
next
  case (Cons l locs)
  from Cons.prems have dl: "is_dict l" and dls: "list_all is_dict locs" by simp_all
  from dl obtain loc where l: "l = JDict loc" by (cases l) (simp_all add: is_dict_def)
  obtain loc' c1 where s: "enrich_single_location w key l dest calls = (Inr (JDict loc'), c1)"
    using enrich_single_location_dict[of w key loc dest calls] l by blast
  from Cons.IH[OF dls, of "acc @ [JDict loc']" c1] obtain outs where
    run: "enrich_each w key dest locs (acc @ [JDict loc']) c1 =
            (Inr ((acc @ [JDict loc']) @ outs), calls_after_locations w key dest locs c1)"
    and len: "length outs = length locs"
    and each: "\<forall>j < length locs.
              enriched_at w key dest (calls_after_locations w key dest (take j locs) c1)
                (locs ! j) (outs ! j)"
    by blast
  let ?outs = "JDict loc' # outs"
  have 1: "enrich_each w key dest (l # locs) acc calls =
             (Inr (acc @ ?outs), calls_after_locations w key dest (l # locs) calls)"
    using s run by simp
  have 2: "length ?outs = length (l # locs)" using len by simp
  have 3: "\<forall>j < length (l # locs).
              enriched_at w key dest (calls_after_locations w key dest (take j (l # locs)) calls)
                ((l # locs) ! j) (?outs ! j)"
  proof (intro allI impI)
    fix j assume j: "j < length (l # locs)"
    show "enriched_at w key dest (calls_after_locations w key dest (take j (l # locs)) calls)
                ((l # locs) ! j) (?outs ! j)"
    proof (cases j)
      case 0
      have "enriched_at w key dest calls l (JDict loc')"
        using dl s by (intro enriched_at_dict) simp_all
      with 0 show ?thesis by simp
    next
      case (Suc j')
      with j have "j' < length locs" by simp
      with each have "enriched_at w key dest (calls_after_locations w key dest (take j' locs) c1)
                (locs ! j') (outs ! j')" by simp
      with Suc s show ?thesis by simp
    qed
  qed
  from 1 2 3 show ?case by blast
qed

lemma enrich_day_run:
  assumes "wf_day day"
  shows "\<exists>day'. enrich_day w key dest day calls =
                  (Inr day', calls_after_locations w key dest (locations_of day) calls)
           \<and> day_run w key dest calls day day'"
proof -
  from assms obtain d where d: "day = JDict d" by (auto simp: wf_day_def split: json.splits)
  have ls: "and_then (py_get day ''locations'' (JList [])) py_iter = Inr (locations_of day)"
    using assms d
    by (auto simp: wf_day_def locations_of_def py_get_def dict_get_def py_iter_def
        split: option.splits json.splits)
  have dicts: "list_all is_dict (locations_of day)" using assms by (rule wf_day_locations)
  from enrich_each_run[OF dicts, of w key dest "[]" calls] obtain outs where
    e: "enrich_each w key dest (locations_of day) [] calls =
          (Inr outs, calls_after_locations w key dest (locations_of day) calls)"
    and len: "length outs = length (locations_of day)"
    and each: "\<forall>j < length (locations_of day).
              enriched_at w key dest
                (calls_after_locations w key dest (take j (locations_of day)) calls)
                (locations_of day ! j) (outs ! j)"
    by auto
  let ?day' = "JDict (dict_set d ''locations'' (JList outs))"
  have "enrich_day w key dest day calls =
          (Inr ?day', calls_after_locations w key dest (locations_of day) calls)"
    using ls e unfolding d by (simp add: enrich_day_def)
  moreover have "locations_of ?day' = outs" by (simp add: locations_of_def map_of_dict_set)
  ultimately show ?thesis using len each unfolding day_run_def by auto
qed

lemma enrich_days_run:
  "list_all wf_day days \<Longrightarrow>
     \<exists>days'. enrich_days w key dest days calls = (Inr days', calls_after_days w key dest days calls)
        \<and> length days' = length days
        \<and> (\<forall>i < length days.
              day_run w key dest (calls_after_days w key dest (take i days) calls)
                (days ! i) (days' ! i))"
proof (induction days arbitrary: calls)
  case Nil
  then show ?case by simp
next
  case (Cons day days)
  from Cons.prems have wd: "wf_day day" and wds: "list_all wf_day days" by simp_all
  let ?c1 = "calls_after_locations w key dest (locations_of day) calls"
  from enrich_day_run[OF wd, of w key dest calls] obtain day' where
    1: "enrich_day w key dest day calls = (Inr day', ?c1)"
    and 2: "day_run w key dest calls day day'" by blast
  from Cons.IH[OF wds, of ?c1] obtain days' where
    3: "enrich_days w key dest days ?c1 = (Inr days', calls_after_days w key dest days ?c1)"
    and 4: "length days' = length days"
    and 5: "\<forall>i < length days.
              day_run w key dest (calls_after_days w key dest (take i days) ?c1)
                (days ! i) (days' ! i)"
    by blast
  have a: "enrich_days w key dest (day # days) calls =
             (Inr (day' # days'), calls_after_days w key dest (day # days) calls)"
    using 1 3 by simp
  have b: "length (day' # days') = length (day # days)" using 4 by simp
  have c: "\<forall>i < length (day # days).
              day_run w key dest (calls_after_days w key dest (take i (day # days)) calls)
                ((day # days) ! i) ((day' # days') ! i)"
  proof (intro allI impI)
    fix i assume i: "i < length (day # days)"
    show "day_run w key dest (calls_after_days w key dest (take i (day # days)) calls)
                ((day # days) ! i) ((day' # days') ! i)"
    proof (cases i)
      case 0
      with 2 show ?thesis by simp
    next
      case (Suc i')
      with i 5 show ?thesis by simp
    qed
  qed
  from a b c show ?case by blast
qed

lemma calls_after_locations_no_key:
  "\<not> key_set key \<Longrightarrow> calls_after_locations w key dest locs calls = calls"
  by (induction locs arbitrary: calls) (simp_all add: enrich_single_location_def)

lemma calls_after_days_no_key:
  "\<not> key_set key \<Longrightarrow> calls_after_days w key dest days calls = calls"
  by (induction days arbitrary: calls) (simp_all add: calls_after_locations_no_key)

lemma enriched_at_no_key: "\<not> key_set key \<Longrightarrow> enriched_at w key dest calls l l"
  by (simp add: enriched_at_def enrich_single_location_def)

lemma day_run_no_key: "\<not> key_set key \<Longrightarrow> day_run w key dest calls day day"
  by (simp add: day_run_def enriched_at_no_key)

lemma enrich_locations_run:
  assumes "wf_itinerary itinerary"
  shows "\<exists>itinerary'.
           enrich_locations w key itinerary calls =
             (Inr itinerary',
              calls_after_days w key (field_or itinerary ''destination'' (JStr []))
                (days_of itinerary) calls)
           \<and> length (days_of itinerary') = length (days_of itinerary)
           \<and> (\<forall>i < length (days_of itinerary).
                 day_run w key (field_or itinerary ''destination'' (JStr []))
                   (calls_after_days w key (field_or itinerary ''destination'' (JStr []))
                      (take i (days_of itinerary)) calls)
                   (days_of itinerary ! i) (days_of itinerary' ! i))"
proof (cases "key_set key")
  case False
  then have "enrich_locations w key itinerary calls = (Inr itinerary, calls)"
    by (simp add: enrich_locations_def)
  with False show ?thesis by (simp add: calls_after_days_no_key day_run_no_key)
next
  case True
  from assms obtain d where d: "itinerary = JDict d"
    by (auto simp: wf_itinerary_def split: json.splits)
  let ?dest = "field_or itinerary ''destination'' (JStr [])"
  have dest: "py_get itinerary ''destination'' (JStr []) = Inr ?dest"
    by (simp add: d py_get_def field_or_def)
  have days: "and_then (py_get itinerary ''days'' (JList [])) py_iter = Inr (days_of itinerary)"
    using assms d
    by (auto simp: wf_itinerary_def days_of_def py_get_def dict_get_def py_iter_def
        split: option.splits json.splits)
  have wf: "list_all wf_day (days_of itinerary)" using assms by (rule wf_itinerary_days)
  from enrich_days_run[OF wf, of w key ?dest calls] obtain days' where
    e: "enrich_days w key ?dest (days_of itinerary) calls =
          (Inr days', calls_after_days w key ?dest (days_of itinerary) calls)"
    and len: "length days' = length (days_of itinerary)"
    and each: "\<forall>i < length (days_of itinerary).
              day_run w key ?dest (calls_after_days w key ?dest (take i (days_of itinerary)) calls)
                (days_of itinerary ! i) (days' ! i)"
    by blast
  show ?thesis
  proof (cases "\<exists>ds. map_of d ''days'' = Some (JList ds)")
    case True
    let ?it' = "JDict (dict_set d ''days'' (JList days'))"
    have "enrich_locations w key itinerary calls =
            (Inr ?it', calls_after_days w key ?dest (days_of itinerary) calls)"
      using True \<open>key_set key\<close> dest days e unfolding d
      by (auto simp: enrich_locations_def)
    moreover have "days_of ?it' = days'" by (simp add: days_of_def map_of_dict_set)
    ultimately show ?thesis using len each by auto
  next
    case False
    then have none: "map_of d ''days'' = None"
      using assms d by (auto simp: wf_itinerary_def split: option.splits json.splits)
    then have empty: "days_of itinerary = []" by (simp add: days_of_def d)
    have "enrich_locations w key itinerary calls =
            (Inr itinerary, calls_after_days w key ?dest (days_of itinerary) calls)"
      using none \<open>key_set key\<close> dest days e unfolding d
      by (auto simp: enrich_locations_def)
    with empty show ?thesis by auto
  qed
qed

text \<open>
  Claim C7. For every itinerary of the data model's shape and every world, that is,
  whichever searches and details fetches fail with a network or parsing error,
  \<open>enrich_locations\<close> returns normally, having made the calls of every location of
  every day in turn. The j-th location of the i-th day of the result is what
  \<open>enrich_single_location\<close> returns for the j-th location of the i-th day of the input
  at the calls the run has made before it: the input location itself when its own search
  call or details call fails, and the location updated from its details when both
  succeed, whatever happened to the locations before it. A failure is caught for its
  location alone and never ends the enrichment of the others.
\<close>

theorem enrich_locations_isolates_failures:
  assumes "wf_itinerary itinerary"
  shows "\<exists>itinerary'.
           enrich_locations w key itinerary calls =
             (Inr itinerary',
              calls_after_days w key (field_or itinerary ''destination'' (JStr []))
                (days_of itinerary) calls)
           \<and> length (days_of itinerary') = length (days_of itinerary)
           \<and> (\<forall>i < length (days_of itinerary).
                 length (locations_of (days_of itinerary' ! i)) =
                   length (locations_of (days_of itinerary ! i))
                 \<and> (\<forall>j < length (locations_of (days_of itinerary ! i)).
                       enriched_at w key (field_or itinerary ''destination'' (JStr []))
                         (calls_after_locations w key (field_or itinerary ''destination'' (JStr []))
                            (take j (locations_of (days_of itinerary ! i)))
                            (calls_after_days w key (field_or itinerary ''destination'' (JStr []))
                               (take i (days_of itinerary)) calls))
                         (locations_of (days_of itinerary ! i) ! j)
                         (locations_of (days_of itinerary' ! i) ! j)))"
  using enrich_locations_run[OF assms, of w key calls] unfolding day_run_def by blast

lemma failing_details_run:
  "enrich_locations failing_details_world (Some ''k'') example_itinerary [] =
     (Inr example_enriched,
      [TextSearch (JStr ''A'') (JStr ''Rome'') None, PlaceDetails (JStr ''p0''),
       TextSearch (JStr ''B'') (JStr ''Rome'') None, PlaceDetails (JStr ''p1'')])"
  by code_simp

theorem enrich_locations_isolates_failures_witness:
  "wf_itinerary example_itinerary
   \<and> http_json failing_details_world 1 = Inl (OtherError ''timed out'')
   \<and> enrich_locations failing_details_world (Some ''k'') example_itinerary [] =
       (Inr example_enriched,
        [TextSearch (JStr ''A'') (JStr ''Rome'') None, PlaceDetails (JStr ''p0''),
         TextSearch (JStr ''B'') (JStr ''Rome'') None, PlaceDetails (JStr ''p1'')])
   \<and> enriched_at failing_details_world (Some ''k'') (JStr ''Rome'') []
       (JDict [(''name'', JStr ''A''), (''price_level'', JStr ''$$'')])
       (JDict [(''name'', JStr ''A''), (''price_level'', JStr ''$$'')])
   \<and> calls_after_locations failing_details_world (Some ''k'') (JStr ''Rome'')
       [JDict [(''name'', JStr ''A''), (''price_level'', JStr ''$$'')]] [] =
       [TextSearch (JStr ''A'') (JStr ''Rome'') None, PlaceDetails (JStr ''p0'')]
   \<and> enriched_at failing_details_world (Some ''k'') (JStr ''Rome'')
       [TextSearch (JStr ''A'') (JStr ''Rome'') None, PlaceDetails (JStr ''p0'')]
       (JDict example_bar) (JDict example_bar_enriched)
   \<and> example_bar_enriched \<noteq> example_bar"
proof -
  let ?a = "JDict [(''name'', JStr ''A''), (''price_level'', JStr ''$$'')]"
  let ?w = failing_details_world
  have dest: "field_or example_itinerary ''destination'' (JStr []) = JStr ''Rome''"
    by code_simp
  have reply: "http_json ?w 1 = Inl (OtherError ''timed out'')"
    by code_simp
  have days: "length (days_of example_itinerary) = 1"
    by code_simp
  have locs: "locations_of (days_of example_itinerary ! 0) = [?a, JDict example_bar]"
    by code_simp
  have locs': "locations_of (days_of example_enriched ! 0) = [?a, JDict example_bar_enriched]"
    by code_simp
  have first: "calls_after_locations ?w (Some ''k'') (JStr ''Rome'') [?a] [] =
       [TextSearch (JStr ''A'') (JStr ''Rome'') None, PlaceDetails (JStr ''p0'')]"
    by code_simp
  have changed: "example_bar_enriched \<noteq> example_bar"
    by code_simp
  from enrich_locations_isolates_failures[OF example_wf, of ?w "Some ''k''" "[]"]
  have each: "\<forall>j < 2. enriched_at ?w (Some ''k'') (JStr ''Rome'')
                  (calls_after_locations ?w (Some ''k'') (JStr ''Rome'')
                     (take j [?a, JDict example_bar]) [])
                  ([?a, JDict example_bar] ! j) ([?a, JDict example_bar_enriched] ! j)"
    unfolding failing_details_run dest days by (auto simp: locs locs')
  from each have 0: "enriched_at ?w (Some ''k'') (JStr ''Rome'') [] ?a ?a"
    by (auto dest: spec[of _ 0])
  from each have "enriched_at ?w (Some ''k'') (JStr ''Rome'')
                  (calls_after_locations ?w (Some ''k'') (JStr ''Rome'')
                     (take 1 [?a, JDict example_bar]) [])
                  ([?a, JDict example_bar] ! 1) ([?a, JDict example_bar_enriched] ! 1)"
    by (auto dest: spec[of _ 1])
  then have 1: "enriched_at ?w (Some ''k'') (JStr ''Rome'')
                  [TextSearch (JStr ''A'') (JStr ''Rome'') None, PlaceDetails (JStr ''p0'')]
                  (JDict example_bar) (JDict example_bar_enriched)"
    using first by simp
  from example_wf reply failing_details_run 0 first 1 changed show ?thesis by simp
qed

text \<open>
  Claim C9. For every itinerary of the data model's shape, enrichment returns an
  itinerary with as many days, the i-th of which is the i-th day of the input with the
  same fields apart from \<open>locations\<close> and with as many locations, the j-th of which is
  the enrichment of the j-th location of that input day and carries the same name: days
  and locations are never reordered, dropped or added.
\<close>

theorem enrich_locations_preserves_order:
  assumes "wf_itinerary itinerary"
  shows "\<exists>itinerary' calls'.
           enrich_locations w key itinerary calls = (Inr itinerary', calls')
           \<and> length (days_of itinerary') = length (days_of itinerary)
           \<and> (\<forall>i < length (days_of itinerary).
                 (\<forall>k. k \<noteq> ''locations'' \<longrightarrow>
                    field (days_of itinerary' ! i) k = field (days_of itinerary ! i) k)
                 \<and> length (locations_of (days_of itinerary' ! i)) =
                     length (locations_of (days_of itinerary ! i))
                 \<and> (\<forall>j < length (locations_of (days_of itinerary ! i)).
                       enriched_from w key (field_or itinerary ''destination'' (JStr []))
                         (locations_of (days_of itinerary ! i) ! j)
                         (locations_of (days_of itinerary' ! i) ! j)
                       \<and> field (locations_of (days_of itinerary' ! i) ! j) ''name'' =
                           field (locations_of (days_of itinerary ! i) ! j) ''name''))"
proof -
  let ?dest = "field_or itinerary ''destination'' (JStr [])"
  from enrich_locations_result[OF assms, of w key calls] obtain itinerary' calls' where
    run: "enrich_locations w key itinerary calls = (Inr itinerary', calls')"
    and days: "list_all2 (day_enriched w key ?dest) (days_of itinerary) (days_of itinerary')"
    by blast
  from days have len: "length (days_of itinerary') = length (days_of itinerary)"
    by (simp add: list_all2_lengthD)
  have "\<forall>i < length (days_of itinerary).
          (\<forall>k. k \<noteq> ''locations'' \<longrightarrow>
             field (days_of itinerary' ! i) k = field (days_of itinerary ! i) k)
          \<and> length (locations_of (days_of itinerary' ! i)) =
              length (locations_of (days_of itinerary ! i))
          \<and> (\<forall>j < length (locations_of (days_of itinerary ! i)).
                enriched_from w key ?dest
                  (locations_of (days_of itinerary ! i) ! j)
                  (locations_of (days_of itinerary' ! i) ! j)
                \<and> field (locations_of (days_of itinerary' ! i) ! j) ''name'' =
                    field (locations_of (days_of itinerary ! i) ! j) ''name'')"
  proof (intro allI impI)
    fix i assume i: "i < length (days_of itinerary)"
    let ?day = "days_of itinerary ! i" and ?day' = "days_of itinerary' ! i"
    from days i have d: "day_enriched w key ?dest ?day ?day'" by (simp add: list_all2_nthD)
    then have fields: "\<forall>k. k \<noteq> ''locations'' \<longrightarrow> field ?day' k = field ?day k"
      and locs: "list_all2 (enriched_from w key ?dest) (locations_of ?day) (locations_of ?day')"
      by (simp_all add: day_enriched_def)
    from wf_itinerary_days[OF assms] i have "wf_day ?day" by (simp add: list_all_length)
    then have dicts: "list_all is_dict (locations_of ?day)" by (rule wf_day_locations)
    have "\<forall>j < length (locations_of ?day).
            enriched_from w key ?dest (locations_of ?day ! j) (locations_of ?day' ! j)
            \<and> field (locations_of ?day' ! j) ''name'' = field (locations_of ?day ! j) ''name''"
    proof (intro allI impI)
      fix j assume j: "j < length (locations_of ?day)"
      let ?l = "locations_of ?day ! j" and ?l' = "locations_of ?day' ! j"
      from locs j have e: "enriched_from w key ?dest ?l ?l'" by (simp add: list_all2_nthD)
      from dicts j have "is_dict ?l" by (simp add: list_all_length)
      then obtain loc where l: "?l = JDict loc" by (cases ?l) (simp_all add: is_dict_def)
      from e obtain cs cs' where "enrich_single_location w key ?l ?dest cs = (Inr ?l', cs')"
        unfolding enriched_from_def by (metis prod.collapse)
      then have "field ?l' ''name'' = field ?l ''name''"
        unfolding l by (rule enrich_single_location_frame) (simp add: enriched_keys_def)
      with e show "enriched_from w key ?dest ?l ?l' \<and> field ?l' ''name'' = field ?l ''name''"
        by simp
    qed
    with fields locs show "(\<forall>k. k \<noteq> ''locations'' \<longrightarrow> field ?day' k = field ?day k)
      \<and> length (locations_of ?day') = length (locations_of ?day)
      \<and> (\<forall>j < length (locations_of ?day).
            enriched_from w key ?dest (locations_of ?day ! j) (locations_of ?day' ! j)
            \<and> field (locations_of ?day' ! j) ''name'' = field (locations_of ?day ! j) ''name'')"
      by (simp add: list_all2_lengthD)
  qed
  with run len show ?thesis by blast
qed


theorem enrich_locations_preserves_order_witness:
  "wf_itinerary example_itinerary
   \<and> length (days_of example_enriched) = length (days_of example_itinerary)
   \<and> length (locations_of (days_of example_enriched ! 0)) =
       length (locations_of (days_of example_itinerary ! 0))
   \<and> enriched_from example_world (Some ''k'') (JStr ''Rome'')
       (locations_of (days_of example_itinerary ! 0) ! 1)
       (locations_of (days_of example_enriched ! 0) ! 1)
   \<and> field (locations_of (days_of example_enriched ! 0) ! 1) ''name'' =
       field (locations_of (days_of example_itinerary ! 0) ! 1) ''name''
   \<and> field (locations_of (days_of example_enriched ! 0) ! 1) ''name'' = JStr ''B''"
proof -
  have dest: "field_or example_itinerary ''destination'' (JStr []) = JStr ''Rome''"
    by code_simp
  have i: "0 < length (days_of example_itinerary)"
    by code_simp
  have j: "1 < length (locations_of (days_of example_itinerary ! 0))"
    by code_simp
  have name: "field (locations_of (days_of example_enriched ! 0) ! 1) ''name'' = JStr ''B''"
    by code_simp
  from enrich_locations_preserves_order[OF example_wf, of example_world "Some ''k''" "[]"]
  show ?thesis unfolding example_run dest using example_wf i j name by auto
qed

lemma update_location_not_dict: "\<not> is_dict details \<Longrightarrow> update_location w key details loc = loc"
  by (cases details) (simp_all add: is_dict_def update_location_def set_address_def py_get_def)

text \<open>
  Claim C3, as stated: a location with a non-null address, rating or price level never
  has that field nulled by enrichment. It fails when the match succeeds: the source
  assigns \<^verbatim>\<open>details.get('rating')\<close> and the converted
  \<^verbatim>\<open>details.get('price_level')\<close> whatever they are, so details without a price
  tier replace the price level "$$" of the location by \<^verbatim>\<open>None\<close>.
\<close>

theorem enrich_single_location_nulls_price_level:
  "dict_get example_bar ''price_level'' JNull = JStr ''$$''
   \<and> fst (enrich_single_location example_world (Some ''k'') (JDict example_bar) (JStr ''Rome'')
            [TextSearch (JStr ''A'') (JStr ''Rome'') None]) = Inr (JDict example_bar_enriched)
   \<and> dict_get example_bar_enriched ''price_level'' JNull = JNull"
  by code_simp

text \<open>
  Claim C3, amended. For every location that is a dict, enrichment returns a dict and
  changes it only when the search call and the details call both succeed and the details
  are a non-empty dict: a failed search or a failed details fetch leaves every field as
  it was. In every case the fields other than \<open>address\<close>, \<open>coordinates\<close>, \<open>rating\<close>,
  \<open>price_level\<close>, \<open>google_maps_url\<close>, \<open>image_url\<close> and \<open>opening_hours\<close> keep their
  values, and \<open>address\<close> keeps its value when the details carry no
  \<open>formatted_address\<close>.
\<close>

theorem enrich_single_location_preserves:
  "\<exists>loc' calls'.
     enrich_single_location w key (JDict loc) dest calls = (Inr (JDict loc'), calls')
     \<and> (\<forall>k. k \<notin> enriched_keys \<longrightarrow> map_of loc' k = map_of loc k)
     \<and> ((\<exists>e. http_json w (length calls) = Inl e \<or> http_json w (Suc (length calls)) = Inl e)
          \<longrightarrow> loc' = loc)
     \<and> (loc' = loc
         \<or> (\<exists>data place ddata dd.
               http_json w (length calls) = Inr data \<and> search_result data = Inr place
               \<and> truthy place
               \<and> http_json w (Suc (length calls)) = Inr ddata
               \<and> details_result ddata = Inr (JDict dd) \<and> dd \<noteq> []
               \<and> loc' = update_location w key (JDict dd) loc
               \<and> (map_of dd ''formatted_address'' = None \<longrightarrow>
                    dict_get loc' ''address'' JNull = dict_get loc ''address'' JNull)))"
proof -
  from enrich_single_location_cases[of w key loc dest calls] obtain calls' where
    c: "enrich_single_location w key (JDict loc) dest calls = (Inr (JDict loc), calls')
        \<or> (\<exists>data place place_id ddata details.
         http_json w (length calls) = Inr data \<and> search_result data = Inr place \<and> truthy place
         \<and> py_get place ''place_id'' JNull = Inr place_id \<and> truthy place_id
         \<and> http_json w (Suc (length calls)) = Inr ddata \<and> details_result ddata = Inr details
         \<and> truthy details
         \<and> enrich_single_location w key (JDict loc) dest calls =
             (Inr (JDict (update_location w key details loc)), calls'))"
    by blast
  then show ?thesis
  proof
    assume "enrich_single_location w key (JDict loc) dest calls = (Inr (JDict loc), calls')"
    then show ?thesis by blast
  next
    assume "\<exists>data place place_id ddata details.
         http_json w (length calls) = Inr data \<and> search_result data = Inr place \<and> truthy place
         \<and> py_get place ''place_id'' JNull = Inr place_id \<and> truthy place_id
         \<and> http_json w (Suc (length calls)) = Inr ddata \<and> details_result ddata = Inr details
         \<and> truthy details
         \<and> enrich_single_location w key (JDict loc) dest calls =
             (Inr (JDict (update_location w key details loc)), calls')"
    then obtain data place ddata details where
      s: "http_json w (length calls) = Inr data" "search_result data = Inr place" "truthy place"
      and d: "http_json w (Suc (length calls)) = Inr ddata" "details_result ddata = Inr details"
        "truthy details"
      and r: "enrich_single_location w key (JDict loc) dest calls =
             (Inr (JDict (update_location w key details loc)), calls')"
      by blast
    let ?loc' = "update_location w key details loc"
    have frame: "\<forall>k. k \<notin> enriched_keys \<longrightarrow> map_of ?loc' k = map_of loc k"
      by (simp add: update_location_frame)
    have nofail: "(\<exists>e. http_json w (length calls) = Inl e \<or> http_json w (Suc (length calls)) = Inl e)
          \<longrightarrow> ?loc' = loc"
      using s d by simp
    show ?thesis
    proof (cases "is_dict details")
      case False
      then have "?loc' = loc" by (rule update_location_not_dict)
      with r show ?thesis by auto
    next
      case True
      then obtain dd where dd: "details = JDict dd" by (cases details) (simp_all add: is_dict_def)
      with d have ne: "dd \<noteq> []" by simp
      have addr: "map_of dd ''formatted_address'' = None \<longrightarrow>
                    dict_get ?loc' ''address'' JNull = dict_get loc ''address'' JNull"
        using update_location_address[OF dd] by simp
      from s d dd ne addr have "?loc' = loc \<or> (\<exists>data place ddata dd.
               http_json w (length calls) = Inr data \<and> search_result data = Inr place
               \<and> truthy place
               \<and> http_json w (Suc (length calls)) = Inr ddata
               \<and> details_result ddata = Inr (JDict dd) \<and> dd \<noteq> []
               \<and> ?loc' = update_location w key (JDict dd) loc
               \<and> (map_of dd ''formatted_address'' = None \<longrightarrow>
                    dict_get ?loc' ''address'' JNull = dict_get loc ''address'' JNull))"
        apply -
        apply (rule disjI2)
        apply (rule_tac x = data in exI)
        apply (rule_tac x = place in exI)
        apply (rule_tac x = ddata in exI)
        apply (rule_tac x = dd in exI)
        apply simp
        done
      with r frame nofail show ?thesis
        by - (rule exI[of _ ?loc'], rule exI[of _ calls'], (intro conjI; assumption))
    qed
  qed
qed

theorem enrich_single_location_preserves_witness:
  "''name'' \<notin> enriched_keys
   \<and> http_json example_world 0 = Inl (OtherError ''timed out'')
   \<and> fst (enrich_single_location example_world (Some ''k'') (JDict example_bar) (JStr ''Rome'') [])
       = Inr (JDict example_bar)
   \<and> fst (enrich_single_location example_world (Some ''k'') (JDict example_bar) (JStr ''Rome'')
            [TextSearch (JStr ''A'') (JStr ''Rome'') None]) = Inr (JDict example_bar_enriched)
   \<and> map_of example_bar_enriched ''name'' = map_of example_bar ''name''
   \<and> dict_get example_bar_enriched ''address'' JNull = dict_get example_bar ''address'' JNull"
proof -
  have k: "''name'' \<notin> enriched_keys" by (simp add: enriched_keys_def)
  have reply: "http_json example_world 0 = Inl (OtherError ''timed out'')" by code_simp
  have run: "enrich_single_location example_world (Some ''k'') (JDict example_bar) (JStr ''Rome'')
            [TextSearch (JStr ''A'') (JStr ''Rome'') None] =
          (Inr (JDict example_bar_enriched),
           [TextSearch (JStr ''A'') (JStr ''Rome'') None,
            TextSearch (JStr ''B'') (JStr ''Rome'') None, PlaceDetails (JStr ''p1'')])"
    by code_simp
  have addr: "dict_get example_bar_enriched ''address'' JNull = dict_get example_bar ''address'' JNull"
    by code_simp
  from enrich_single_location_preserves[of example_world "Some ''k''" example_bar "JStr ''Rome''" "[]"]
    reply
  have 1: "fst (enrich_single_location example_world (Some ''k'') (JDict example_bar) (JStr ''Rome'') [])
       = Inr (JDict example_bar)"
    by auto
  from enrich_single_location_preserves[of example_world "Some ''k''" example_bar "JStr ''Rome''"
      "[TextSearch (JStr ''A'') (JStr ''Rome'') None]"] k
  have 2: "map_of example_bar_enriched ''name'' = map_of example_bar ''name''"
    unfolding run by auto
  from k reply 1 2 run addr show ?thesis by simp
qed

subsection \<open>The resolver and the endpoint\<close>

lemma mentions_str_in: "mentions u domain = str_in domain (lower u)"
  by (simp add: mentions_def str_in_def sublist_def)

lemma mentions_vm_tiktok: "mentions u ''vm.tiktok.com'' \<Longrightarrow> mentions u ''tiktok.com''"
proof -
  assume "mentions u ''vm.tiktok.com''"
  then obtain a b where "lower u = a @ ''vm.tiktok.com'' @ b" by (auto simp: mentions_def)
  then have "lower u = (a @ ''vm.'') @ ''tiktok.com'' @ b" by simp
  then show ?thesis unfolding mentions_def by blast
qed

lemma run_extractor_calls: "snd (run_extractor p w u calls) = calls @ [RunExtractor p u]"
  by (simp add: run_extractor_def split: json.splits)

lemma run_extractor_platform:
  "fst (run_extractor p w u calls) = JNull
   \<or> field (fst (run_extractor p w u calls)) ''platform'' = JStr (platform_name p)"
  by (simp add: run_extractor_def field_def dict_get_def map_of_dict_set split: json.splits)

text \<open>
  Claim C8. For every URL, the resolver picks the platform by looking for the domains in
  the URL in lower case, in a fixed order. A URL that contains \<^verbatim>\<open>tiktok.com\<close>
  (as \<^verbatim>\<open>vm.tiktok.com\<close> does) goes to the TikTok extractor, whatever else it contains;
  otherwise a URL that contains \<^verbatim>\<open>instagram.com\<close> goes to the Instagram extractor;
  otherwise a URL that contains \<^verbatim>\<open>youtube.com\<close> or \<^verbatim>\<open>youtu.be\<close> goes to the YouTube
  extractor; a URL that contains none of them is answered \<^verbatim>\<open>None\<close>, with no call made.
\<close>

theorem extract_content_from_url_order:
  "(mentions u ''tiktok.com'' \<or> mentions u ''vm.tiktok.com''
      \<longrightarrow> extract_content_from_url w u calls = extract_tiktok w u calls)
   \<and> (\<not> mentions u ''tiktok.com'' \<and> mentions u ''instagram.com''
      \<longrightarrow> extract_content_from_url w u calls = extract_instagram w u calls)
   \<and> (\<not> mentions u ''tiktok.com'' \<and> \<not> mentions u ''instagram.com''
        \<and> (mentions u ''youtube.com'' \<or> mentions u ''youtu.be'')
      \<longrightarrow> extract_content_from_url w u calls = extract_youtube w u calls)
   \<and> (\<not> mentions u ''tiktok.com'' \<and> \<not> mentions u ''instagram.com''
        \<and> \<not> mentions u ''youtube.com'' \<and> \<not> mentions u ''youtu.be''
      \<longrightarrow> extract_content_from_url w u calls = (JNull, calls))"
proof -
  have vm: "mentions u ''vm.tiktok.com'' \<longrightarrow> mentions u ''tiktok.com''"
    using mentions_vm_tiktok by blast
  show ?thesis
    using vm unfolding mentions_str_in extract_content_from_url_def Let_def by auto
qed

theorem extract_content_from_url_order_witness:
  "\<not> mentions ''https://Instagram.com/p/1?from=youtube.com'' ''tiktok.com''
   \<and> mentions ''https://Instagram.com/p/1?from=youtube.com'' ''instagram.com''
   \<and> mentions ''https://Instagram.com/p/1?from=youtube.com'' ''youtube.com''
   \<and> extract_content_from_url (answering []) ''https://Instagram.com/p/1?from=youtube.com'' [] =
       extract_instagram (answering []) ''https://Instagram.com/p/1?from=youtube.com'' []
   \<and> snd (extract_content_from_url (answering []) ''https://Instagram.com/p/1?from=youtube.com'' []) =
       [RunExtractor Instagram ''https://Instagram.com/p/1?from=youtube.com'']"
proof -
  let ?u = "''https://Instagram.com/p/1?from=youtube.com''"
  have 1: "\<not> mentions ?u ''tiktok.com''" unfolding mentions_str_in by code_simp
  have 2: "mentions ?u ''instagram.com''" unfolding mentions_str_in by code_simp
  have 3: "mentions ?u ''youtube.com''" unfolding mentions_str_in by code_simp
  from extract_content_from_url_order[of ?u "answering []" "[]"] 1 2
  have 4: "extract_content_from_url (answering []) ?u [] = extract_instagram (answering []) ?u []"
    by blast
  have 5: "snd (extract_instagram (answering []) ?u []) = [RunExtractor Instagram ?u]"
    by (simp add: extract_instagram_def run_extractor_calls)
  from 1 2 3 4 5 show ?thesis by simp
qed

text \<open>
  The endpoint of \<^verbatim>\<open>main.py\<close> tests the URL against its own list of domains. A URL
  outside the list is answered 400 before any call is made, and 400 is answered to no
  other URL.
\<close>

lemma valid_domains_mentions:
  "list_ex (\<lambda>domain. str_in domain (lower u)) valid_domains \<longleftrightarrow>
     mentions u ''tiktok.com'' \<or> mentions u ''instagram.com'' \<or> mentions u ''youtube.com''"
  using mentions_vm_tiktok[of u] by (auto simp: valid_domains_def mentions_str_in)

lemma extract_itinerary_rejects_unrecognized:
  assumes "\<not> mentions (url request) ''tiktok.com''" and "\<not> mentions (url request) ''instagram.com''"
    and "\<not> mentions (url request) ''youtube.com''"
  shows "extract_itinerary w env request calls =
           (HTTPException 400 ''Please provide a valid TikTok, Instagram, or YouTube URL'', calls)"
  using assms by (simp add: extract_itinerary_def valid_domains_mentions)

lemma extract_itinerary_400_only_unrecognized:
  assumes "fst (extract_itinerary w env request calls) = HTTPException 400 detail"
  shows "\<not> mentions (url request) ''tiktok.com'' \<and> \<not> mentions (url request) ''instagram.com''
         \<and> \<not> mentions (url request) ''youtube.com''"
proof (rule ccontr)
  assume "\<not> ?thesis"
  then have "list_ex (\<lambda>domain. str_in domain (lower (url request))) valid_domains"
    by (simp add: valid_domains_mentions)
  with assms show False
    by (auto simp: extract_itinerary_def split: if_splits prod.splits sum.splits)
qed

text \<open>
  Claim C1, at the input where the code departs from it. The URL
  \<^verbatim>\<open>https://youtu.be/dQw4w9WgXcQ\<close> contains the short domain \<^verbatim>\<open>youtu.be\<close>, and the
  resolver would send it to the YouTube extractor; the endpoint answers it with status
  400 and makes no call, since the list it tests lacks \<^verbatim>\<open>youtu.be\<close>.
\<close>

theorem extract_itinerary_rejects_youtu_be:
  "mentions ''https://youtu.be/dQw4w9WgXcQ'' ''youtu.be''
   \<and> extract_content_from_url w ''https://youtu.be/dQw4w9WgXcQ'' calls =
       extract_youtube w ''https://youtu.be/dQw4w9WgXcQ'' calls
   \<and> extract_itinerary w env
        \<lparr>url = ''https://youtu.be/dQw4w9WgXcQ'', trip_duration = duration, preferences = prefs\<rparr> calls =
       (HTTPException 400 ''Please provide a valid TikTok, Instagram, or YouTube URL'', calls)"
proof -
  let ?u = "''https://youtu.be/dQw4w9WgXcQ''"
  have t: "\<not> mentions ?u ''tiktok.com''" unfolding mentions_str_in by code_simp
  have i: "\<not> mentions ?u ''instagram.com''" unfolding mentions_str_in by code_simp
  have y: "\<not> mentions ?u ''youtube.com''" unfolding mentions_str_in by code_simp
  have b: "mentions ?u ''youtu.be''" unfolding mentions_str_in by code_simp
  have vm: "\<not> mentions ?u ''vm.tiktok.com''" using t mentions_vm_tiktok by blast
  have 1: "extract_content_from_url w ?u calls = extract_youtube w ?u calls"
    using t i b vm unfolding mentions_str_in extract_content_from_url_def Let_def by simp
  have 2: "extract_itinerary w env \<lparr>url = ?u, trip_duration = duration, preferences = prefs\<rparr> calls =
       (HTTPException 400 ''Please provide a valid TikTok, Instagram, or YouTube URL'', calls)"
    using t i y by (simp add: extract_itinerary_rejects_unrecognized)
  from b 1 2 show ?thesis by simp
qed


subsection \<open>The synthesizer\<close>

text \<open>The match of the pattern is the text from the first \<open>{\<close> to the last \<open>}\<close>.\<close>

lemma search_braces_Some:
  assumes "search_braces raw = Some m"
  shows "\<exists>before after body. raw = before @ m @ after \<and> m = ''{'' @ body @ ''}''
           \<and> CHR ''{'' \<notin> set before \<and> CHR ''}'' \<notin> set after"
proof -
  let ?open = "\<lambda>c. c \<noteq> CHR ''{''" and ?close = "\<lambda>c. c \<noteq> CHR ''}''"
  define fo where "fo = dropWhile ?open raw"
  define before where "before = takeWhile ?open raw"
  define dr where "dr = dropWhile ?close (rev fo)"
  define after where "after = rev (takeWhile ?close (rev fo))"
  from assms have m: "m = rev dr" and ne: "m \<noteq> []"
    by (auto simp: search_braces_def Let_def fo_def dr_def split: if_splits)
  have "rev (rev fo) = rev (takeWhile ?close (rev fo) @ dr)"
    unfolding dr_def by (simp only: takeWhile_dropWhile_id)
  then have fo: "fo = m @ after" by (simp only: rev_rev_ident rev_append m after_def)
  have "raw = before @ fo" unfolding before_def fo_def by simp
  with fo have raw: "raw = before @ m @ after" by simp
  have b: "CHR ''{'' \<notin> set before" unfolding before_def by (auto dest: set_takeWhileD)
  have a: "CHR ''}'' \<notin> set after" unfolding after_def by (auto dest: set_takeWhileD)
  from ne fo have fone: "fo \<noteq> []" by simp
  then have "hd fo = CHR ''{''" unfolding fo_def using hd_dropWhile[of ?open raw] by simp
  with fo ne have hd: "hd m = CHR ''{''" by simp
  from ne m have dne: "dr \<noteq> []" by simp
  then have "hd dr = CHR ''}''" unfolding dr_def using hd_dropWhile[of ?close "rev fo"] by simp
  with dne have last: "last m = CHR ''}''" unfolding m by (simp add: last_rev)
  from ne hd obtain t where t: "m = CHR ''{'' # t" by (cases m) auto
  with last have tne: "t \<noteq> []" by auto
  with t last have "last t = CHR ''}''" by simp
  with tne have "t = butlast t @ ''}''" by (metis append_butlast_last_id)
  with t have "m = ''{'' @ butlast t @ ''}''" by simp
  with raw a b show ?thesis by blast
qed

lemma search_braces_None:
  assumes "search_braces raw = None"
  shows "\<not> (\<exists>a b c. raw = a @ ''{'' @ b @ ''}'' @ c)"
proof
  let ?open = "\<lambda>c. c \<noteq> CHR ''{''" and ?close = "\<lambda>c. c \<noteq> CHR ''}''"
  let ?fo = "dropWhile ?open raw"
  assume "\<exists>a b c. raw = a @ ''{'' @ b @ ''}'' @ c"
  then obtain a b c where raw: "raw = a @ ''{'' @ b @ ''}'' @ c" by blast
  have "CHR ''}'' \<in> set ?fo" unfolding raw by (simp add: dropWhile_append)
  then have "dropWhile ?close (rev ?fo) \<noteq> []" by (auto simp: dropWhile_eq_Nil_conv)
  with assms show False by (auto simp: search_braces_def Let_def split: if_splits)
qed

lemma stamp_source_dict:
  "stamp_source (JDict c) source_url (JDict d) =
     Inr (JDict (dict_set (dict_set d ''source_url'' (JStr source_url)) ''source_creator''
                   (dict_get c ''creator'' (JStr []))))"
  by (simp add: stamp_source_def py_setitem_def py_get_def)

lemma stamp_source_not_dict:
  "\<not> is_dict v \<Longrightarrow> stamp_source content_data source_url v = Inl TypeError"
  by (cases v) (simp_all add: stamp_source_def py_setitem_def is_dict_def)

lemma default_keeps:
  "has_key x k \<Longrightarrow> map_of (if \<not> has_key x k' then dict_set x k' v else x) k = map_of x k"
  by (auto simp: has_key_def map_of_dict_set)

lemma default_has_key:
  "has_key x k \<Longrightarrow> has_key (if \<not> has_key x k' then dict_set x k' v else x) k"
  by (auto simp: has_key_def map_of_dict_set)

lemma default_sets:
  "\<not> has_key x k \<Longrightarrow> map_of (if \<not> has_key x k then dict_set x k v else x) k = Some v"
  by (auto simp: has_key_def map_of_dict_set)

lemma default_other:
  "k \<noteq> k' \<Longrightarrow> map_of (if \<not> has_key x k' then dict_set x k' v else x) k = map_of x k"
  by (auto simp: has_key_def map_of_dict_set)

lemma default_other_has_key:
  "k \<noteq> k' \<Longrightarrow> has_key (if \<not> has_key x k' then dict_set x k' v else x) k = has_key x k"
  by (auto simp: has_key_def map_of_dict_set)

text \<open>What the block of defaults does to a dict whose \<open>days\<close>, if any, is a list.\<close>

lemma ensure_required_fields_dict:
  assumes "\<exists>ds. dict_get d ''days'' (JList []) = JList ds"
  shows "\<exists>r. ensure_required_fields (JDict d) = Inr (JDict r)
           \<and> (\<forall>k. has_key d k \<longrightarrow> map_of r k = map_of d k)
           \<and> (\<not> has_key d ''days'' \<longrightarrow> map_of r ''days'' = Some (JList []))
           \<and> (\<not> has_key d ''duration_days'' \<longrightarrow>
                 Inr (dict_get r ''duration_days'' JNull) = py_len (dict_get r ''days'' JNull))
           \<and> (\<not> has_key d ''packing_tips'' \<longrightarrow> map_of r ''packing_tips'' = Some (JList []))
           \<and> (\<not> has_key d ''local_phrases'' \<longrightarrow> map_of r ''local_phrases'' = Some (JList []))"
proof -
  from assms obtain ds where ds: "dict_get d ''days'' (JList []) = JList ds" by blast
  define n where "n = JInt (int (length ds))"
  define d1 where "d1 = (if \<not> has_key d ''days'' then dict_set d ''days'' (JList []) else d)"
  define d2 where "d2 = (if \<not> has_key d1 ''duration_days'' then dict_set d1 ''duration_days'' n else d1)"
  define d3 where "d3 = (if \<not> has_key d2 ''packing_tips'' then dict_set d2 ''packing_tips'' (JList []) else d2)"
  define d4 where "d4 = (if \<not> has_key d3 ''local_phrases'' then dict_set d3 ''local_phrases'' (JList []) else d3)"
  have days1: "map_of d1 ''days'' = Some (JList ds)"
    using ds by (auto simp: d1_def has_key_def dict_get_def map_of_dict_set split: option.splits)
  then have len: "py_len (dict_get d1 ''days'' JNull) = Inr n"
    by (simp add: dict_get_def py_len_def n_def)
  have "ensure_required_fields (JDict d) =
          and_then (if \<not> has_key d1 ''duration_days''
                    then and_then (py_len (dict_get d1 ''days'' JNull))
                           (\<lambda>n. Inr (dict_set d1 ''duration_days'' n))
                    else Inr d1)
            (\<lambda>d2. Inr (JDict
               (if \<not> has_key (if \<not> has_key d2 ''packing_tips''
                                then dict_set d2 ''packing_tips'' (JList []) else d2) ''local_phrases''
                then dict_set (if \<not> has_key d2 ''packing_tips''
                               then dict_set d2 ''packing_tips'' (JList []) else d2)
                       ''local_phrases'' (JList [])
                else (if \<not> has_key d2 ''packing_tips''
                      then dict_set d2 ''packing_tips'' (JList []) else d2))))"
    unfolding ensure_required_fields_def Let_def json.case d1_def ..
  also have "(if \<not> has_key d1 ''duration_days''
                    then and_then (py_len (dict_get d1 ''days'' JNull))
                           (\<lambda>n. Inr (dict_set d1 ''duration_days'' n))
                    else Inr d1) = Inr d2"
    unfolding len d2_def by simp
  finally have run: "ensure_required_fields (JDict d) = Inr (JDict d4)"
    unfolding d4_def d3_def by simp
  have h1: "has_key d1 k = has_key d k" if "k \<noteq> ''days''" for k
    unfolding d1_def using that by (rule default_other_has_key)
  have h2: "has_key d2 k = has_key d1 k" if "k \<noteq> ''duration_days''" for k
    unfolding d2_def using that by (rule default_other_has_key)
  have h3: "has_key d3 k = has_key d2 k" if "k \<noteq> ''packing_tips''" for k
    unfolding d3_def using that by (rule default_other_has_key)
  have m2: "map_of d2 k = map_of d1 k" if "k \<noteq> ''duration_days''" for k
    unfolding d2_def using that by (rule default_other)
  have m3: "map_of d3 k = map_of d2 k" if "k \<noteq> ''packing_tips''" for k
    unfolding d3_def using that by (rule default_other)
  have m4: "map_of d4 k = map_of d3 k" if "k \<noteq> ''local_phrases''" for k
    unfolding d4_def using that by (rule default_other)
  have keep: "\<forall>k. has_key d k \<longrightarrow> map_of d4 k = map_of d k"
  proof (intro allI impI)
    fix k assume k: "has_key d k"
    then have k1: "has_key d1 k" unfolding d1_def by (rule default_has_key)
    then have k2: "has_key d2 k" unfolding d2_def by (rule default_has_key)
    then have k3: "has_key d3 k" unfolding d3_def by (rule default_has_key)
    have "map_of d4 k = map_of d3 k" unfolding d4_def using k3 by (rule default_keeps)
    also have "\<dots> = map_of d2 k" unfolding d3_def using k2 by (rule default_keeps)
    also have "\<dots> = map_of d1 k" unfolding d2_def using k1 by (rule default_keeps)
    also have "\<dots> = map_of d k" unfolding d1_def using k by (rule default_keeps)
    finally show "map_of d4 k = map_of d k" .
  qed
  have days4: "map_of d4 ''days'' = Some (JList ds)"
    using days1 m2[of "''days''"] m3[of "''days''"] m4[of "''days''"] by simp
  have days: "\<not> has_key d ''days'' \<longrightarrow> map_of d4 ''days'' = Some (JList [])"
  proof
    assume "\<not> has_key d ''days''"
    then have "map_of d1 ''days'' = Some (JList [])" unfolding d1_def by (rule default_sets)
    then show "map_of d4 ''days'' = Some (JList [])"
      using m2[of "''days''"] m3[of "''days''"] m4[of "''days''"] by simp
  qed
  have dur: "\<not> has_key d ''duration_days'' \<longrightarrow>
               Inr (dict_get d4 ''duration_days'' JNull) = py_len (dict_get d4 ''days'' JNull)"
  proof
    assume "\<not> has_key d ''duration_days''"
    then have "\<not> has_key d1 ''duration_days''" using h1[of "''duration_days''"] by simp
    then have "map_of d2 ''duration_days'' = Some n" unfolding d2_def by (rule default_sets)
    then have "map_of d4 ''duration_days'' = Some n"
      using m3[of "''duration_days''"] m4[of "''duration_days''"] by simp
    with days4 show "Inr (dict_get d4 ''duration_days'' JNull) = py_len (dict_get d4 ''days'' JNull)"
      by (simp add: dict_get_def py_len_def n_def)
  qed
  have pack: "\<not> has_key d ''packing_tips'' \<longrightarrow> map_of d4 ''packing_tips'' = Some (JList [])"
  proof
    assume "\<not> has_key d ''packing_tips''"
    then have "\<not> has_key d2 ''packing_tips''"
      using h1[of "''packing_tips''"] h2[of "''packing_tips''"] by simp
    then have "map_of d3 ''packing_tips'' = Some (JList [])" unfolding d3_def by (rule default_sets)
    then show "map_of d4 ''packing_tips'' = Some (JList [])"
      using m4[of "''packing_tips''"] by simp
  qed
  have phr: "\<not> has_key d ''local_phrases'' \<longrightarrow> map_of d4 ''local_phrases'' = Some (JList [])"
  proof
    assume "\<not> has_key d ''local_phrases''"
    then have "\<not> has_key d3 ''local_phrases''"
      using h1[of "''local_phrases''"] h2[of "''local_phrases''"] h3[of "''local_phrases''"] by simp
    then show "map_of d4 ''local_phrases'' = Some (JList [])" unfolding d4_def by (rule default_sets)
  qed
  from run keep days dur pack phr show ?thesis by blast
qed


lemma generate_itinerary_unfold:
  assumes "completion w (length calls) = Inr (JStr raw)" and "content_data = JDict c"
  shows "fst (generate_itinerary w content_data source_url duration_override prefs calls) =
           (case and_then (json_loads w raw) (\<lambda>result.
                   and_then (stamp_source content_data source_url result) ensure_required_fields) of
              Inr result \<Rightarrow> Inr result
            | Inl e \<Rightarrow> if e = JSONDecodeError then recover w content_data source_url raw
                       else Inl (ValueError ''AI generation failed''))"
  using assms
  by (simp add: generate_itinerary_def py_get_def py_loads_def Let_def split: sum.splits)

lemma generate_itinerary_main_path:
  assumes "completion w (length calls) = Inr (JStr raw)" and "content_data = JDict c"
    and "json_loads w raw = Inr (JDict d)"
    and "\<exists>ds. dict_get d ''days'' (JList []) = JList ds"
  shows "\<exists>r. fst (generate_itinerary w content_data source_url duration_override prefs calls) =
               Inr (JDict r)
           \<and> map_of r ''source_url'' = Some (JStr source_url)
           \<and> map_of r ''source_creator'' = Some (dict_get c ''creator'' (JStr []))
           \<and> (\<forall>k. k \<noteq> ''source_url'' \<and> k \<noteq> ''source_creator'' \<and> has_key d k
                  \<longrightarrow> map_of r k = map_of d k)
           \<and> (\<not> has_key d ''days'' \<longrightarrow> map_of r ''days'' = Some (JList []))
           \<and> (\<not> has_key d ''duration_days'' \<longrightarrow>
                 Inr (dict_get r ''duration_days'' JNull) = py_len (dict_get r ''days'' JNull))
           \<and> (\<not> has_key d ''packing_tips'' \<longrightarrow> map_of r ''packing_tips'' = Some (JList []))
           \<and> (\<not> has_key d ''local_phrases'' \<longrightarrow> map_of r ''local_phrases'' = Some (JList []))"
proof -
  define d' where "d' = dict_set (dict_set d ''source_url'' (JStr source_url)) ''source_creator''
                   (dict_get c ''creator'' (JStr []))"
  have st: "stamp_source content_data source_url (JDict d) = Inr (JDict d')"
    unfolding d'_def assms(2) by (rule stamp_source_dict)
  have su: "map_of d' ''source_url'' = Some (JStr source_url)"
    and sc: "map_of d' ''source_creator'' = Some (dict_get c ''creator'' (JStr []))"
    by (simp_all add: d'_def map_of_dict_set)
  have other: "map_of d' k = map_of d k" if "k \<noteq> ''source_url''" "k \<noteq> ''source_creator''" for k
    using that by (simp add: d'_def map_of_dict_set)
  have hk: "has_key d' k = has_key d k" if "k \<noteq> ''source_url''" "k \<noteq> ''source_creator''" for k
    using other[OF that] by (simp add: has_key_def)
  from assms(4) have "\<exists>ds. dict_get d' ''days'' (JList []) = JList ds"
    using other[of "''days''"] by (simp add: dict_get_def)
  from ensure_required_fields_dict[OF this] obtain r where
    run: "ensure_required_fields (JDict d') = Inr (JDict r)"
    and keep: "\<forall>k. has_key d' k \<longrightarrow> map_of r k = map_of d' k"
    and days: "\<not> has_key d' ''days'' \<longrightarrow> map_of r ''days'' = Some (JList [])"
    and dur: "\<not> has_key d' ''duration_days'' \<longrightarrow>
                 Inr (dict_get r ''duration_days'' JNull) = py_len (dict_get r ''days'' JNull)"
    and pack: "\<not> has_key d' ''packing_tips'' \<longrightarrow> map_of r ''packing_tips'' = Some (JList [])"
    and phr: "\<not> has_key d' ''local_phrases'' \<longrightarrow> map_of r ''local_phrases'' = Some (JList [])"
    by blast
  have 1: "fst (generate_itinerary w content_data source_url duration_override prefs calls) =
             Inr (JDict r)"
    unfolding generate_itinerary_unfold[OF assms(1,2)] by (simp add: assms(3) st run)
  have 2: "map_of r ''source_url'' = Some (JStr source_url)"
    using keep su by (simp add: has_key_def)
  have 3: "map_of r ''source_creator'' = Some (dict_get c ''creator'' (JStr []))"
    using keep sc by (simp add: has_key_def)
  have 4: "\<forall>k. k \<noteq> ''source_url'' \<and> k \<noteq> ''source_creator'' \<and> has_key d k
                  \<longrightarrow> map_of r k = map_of d k"
    using keep hk other by auto
  have 5: "\<not> has_key d ''days'' \<longrightarrow> map_of r ''days'' = Some (JList [])"
    using days hk[of "''days''"] by simp
  have 6: "\<not> has_key d ''duration_days'' \<longrightarrow>
                 Inr (dict_get r ''duration_days'' JNull) = py_len (dict_get r ''days'' JNull)"
    using dur hk[of "''duration_days''"] by simp
  have 7: "\<not> has_key d ''packing_tips'' \<longrightarrow> map_of r ''packing_tips'' = Some (JList [])"
    using pack hk[of "''packing_tips''"] by simp
  have 8: "\<not> has_key d ''local_phrases'' \<longrightarrow> map_of r ''local_phrases'' = Some (JList [])"
    using phr hk[of "''local_phrases''"] by simp
  from 1 2 3 4 5 6 7 8 show ?thesis by blast
qed

lemma generate_itinerary_not_object:
  assumes "completion w (length calls) = Inr (JStr raw)" and "content_data = JDict c"
    and "json_loads w raw = Inr v" and "\<not> is_dict v"
  shows "fst (generate_itinerary w content_data source_url duration_override prefs calls) =
           Inl (ValueError ''AI generation failed'')"
  unfolding generate_itinerary_unfold[OF assms(1,2)]
  by (simp add: assms(3) stamp_source_not_dict[OF assms(4)])

lemma generate_itinerary_recovery:
  assumes "completion w (length calls) = Inr (JStr raw)" and "content_data = JDict c"
    and "json_loads w raw = Inl JSONDecodeError"
  shows "fst (generate_itinerary w content_data source_url duration_override prefs calls) =
           recover w content_data source_url raw"
  unfolding generate_itinerary_unfold[OF assms(1,2)] by (simp add: assms(3))

text \<open>
  Claim C4, as stated: when the text does not parse but contains a first brace-delimited
  substring, the synthesizer re-parses that substring and returns the embedded object.
  It fails on a text with two objects: the first brace-delimited substring is the object
  for Rome, which parses, but the pattern of the source is greedy and takes the text
  from the first \<open>{\<close> to the last \<open>}\<close>, which does not parse, and the function raises.
\<close>

theorem generate_itinerary_first_braces_not_recovered:
  \<open>json_loads (answering ''{"destination": "Rome"} or {"destination": "Oslo"}'')
       ''{"destination": "Rome"} or {"destination": "Oslo"}'' = Inl JSONDecodeError
   \<and> first_braces ''{"destination": "Rome"} or {"destination": "Oslo"}'' =
       Some ''{"destination": "Rome"}''
   \<and> json_loads (answering ''{"destination": "Rome"} or {"destination": "Oslo"}'')
       ''{"destination": "Rome"}'' = Inr (JDict [(''destination'', JStr ''Rome'')])
   \<and> search_braces ''{"destination": "Rome"} or {"destination": "Oslo"}'' =
       Some ''{"destination": "Rome"} or {"destination": "Oslo"}''
   \<and> fst (generate_itinerary (answering ''{"destination": "Rome"} or {"destination": "Oslo"}'')
            (JDict [(''creator'', JStr ''@x'')]) ''https://tiktok.com/@x/video/1'' None None []) =
       Inl JSONDecodeError\<close>
  by code_simp

text \<open>
  Claim C4, amended. For every text the generator returns and every content record that
  is a dict: if the text parses to a JSON object whose \<open>days\<close>, if any, is a list, the
  synthesizer returns that object, every field the generator gave kept apart from the
  two source stamps; if it parses to a value that is not an object, the synthesizer
  fails with the \<open>ValueError\<close> "AI generation failed"; if it does not parse and contains
  a \<open>{\<close> with a \<open>}\<close> after it, the text from the first \<open>{\<close> to the last \<open>}\<close> is parsed
  again, and the synthesizer returns the object found there with the two source stamps,
  or fails with the parser's exception when that text does not parse either; if it does
  not parse and has no \<open>{\<close> with a \<open>}\<close> after it, the synthesizer fails with the
  \<open>ValueError\<close> "Failed to parse AI response as JSON".
\<close>

theorem generate_itinerary_parsing:
  assumes "completion w (length calls) = Inr (JStr raw)" and "content_data = JDict c"
  shows "(\<forall>d. json_loads w raw = Inr (JDict d) \<and> (\<exists>ds. dict_get d ''days'' (JList []) = JList ds)
            \<longrightarrow> (\<exists>r. fst (generate_itinerary w content_data source_url duration_override prefs calls) =
                        Inr (JDict r)
                     \<and> (\<forall>k. k \<noteq> ''source_url'' \<and> k \<noteq> ''source_creator'' \<and> has_key d k
                            \<longrightarrow> map_of r k = map_of d k)))
         \<and> (\<forall>v. json_loads w raw = Inr v \<and> \<not> is_dict v
            \<longrightarrow> fst (generate_itinerary w content_data source_url duration_override prefs calls) =
                  Inl (ValueError ''AI generation failed''))
         \<and> (\<forall>m d. json_loads w raw = Inl JSONDecodeError \<and> search_braces raw = Some m
                  \<and> json_loads w m = Inr (JDict d)
            \<longrightarrow> fst (generate_itinerary w content_data source_url duration_override prefs calls) =
                  Inr (JDict (dict_set (dict_set d ''source_url'' (JStr source_url))
                                ''source_creator'' (dict_get c ''creator'' (JStr [])))))
         \<and> (\<forall>m e. json_loads w raw = Inl JSONDecodeError \<and> search_braces raw = Some m
                  \<and> json_loads w m = Inl e
            \<longrightarrow> fst (generate_itinerary w content_data source_url duration_override prefs calls) = Inl e)
         \<and> (json_loads w raw = Inl JSONDecodeError \<and> search_braces raw = None
            \<longrightarrow> fst (generate_itinerary w content_data source_url duration_override prefs calls) =
                  Inl (ValueError ''Failed to parse AI response as JSON''))
         \<and> (\<forall>m. search_braces raw = Some m
            \<longrightarrow> (\<exists>before after body. raw = before @ m @ after \<and> m = ''{'' @ body @ ''}''
                    \<and> CHR ''{'' \<notin> set before \<and> CHR ''}'' \<notin> set after))
         \<and> (search_braces raw = None \<longrightarrow> \<not> (\<exists>a b c'. raw = a @ ''{'' @ b @ ''}'' @ c'))"
proof (intro conjI allI impI)
  fix d
  assume "json_loads w raw = Inr (JDict d) \<and> (\<exists>ds. dict_get d ''days'' (JList []) = JList ds)"
  then show "\<exists>r. fst (generate_itinerary w content_data source_url duration_override prefs calls) =
                        Inr (JDict r)
                     \<and> (\<forall>k. k \<noteq> ''source_url'' \<and> k \<noteq> ''source_creator'' \<and> has_key d k
                            \<longrightarrow> map_of r k = map_of d k)"
    using generate_itinerary_main_path[OF assms, of d source_url duration_override prefs] by blast
next
  fix v
  assume "json_loads w raw = Inr v \<and> \<not> is_dict v"
  then show "fst (generate_itinerary w content_data source_url duration_override prefs calls) =
                  Inl (ValueError ''AI generation failed'')"
    using generate_itinerary_not_object[OF assms] by blast
next
  fix m d
  assume "json_loads w raw = Inl JSONDecodeError \<and> search_braces raw = Some m
                  \<and> json_loads w m = Inr (JDict d)"
  then show "fst (generate_itinerary w content_data source_url duration_override prefs calls) =
                  Inr (JDict (dict_set (dict_set d ''source_url'' (JStr source_url))
                                ''source_creator'' (dict_get c ''creator'' (JStr []))))"
    using generate_itinerary_recovery[OF assms]
    by (simp add: recover_def assms(2) stamp_source_dict)
next
  fix m e
  assume "json_loads w raw = Inl JSONDecodeError \<and> search_braces raw = Some m
                  \<and> json_loads w m = Inl e"
  then show "fst (generate_itinerary w content_data source_url duration_override prefs calls) = Inl e"
    using generate_itinerary_recovery[OF assms] by (simp add: recover_def)
next
  assume "json_loads w raw = Inl JSONDecodeError \<and> search_braces raw = None"
  then show "fst (generate_itinerary w content_data source_url duration_override prefs calls) =
                  Inl (ValueError ''Failed to parse AI response as JSON'')"
    using generate_itinerary_recovery[OF assms] by (simp add: recover_def)
next
  fix m
  assume "search_braces raw = Some m"
  then show "\<exists>before after body. raw = before @ m @ after \<and> m = ''{'' @ body @ ''}''
                    \<and> CHR ''{'' \<notin> set before \<and> CHR ''}'' \<notin> set after"
    by (rule search_braces_Some)
next
  assume "search_braces raw = None"
  then show "\<not> (\<exists>a b c'. raw = a @ ''{'' @ b @ ''}'' @ c')"
    by (rule search_braces_None)
qed

theorem generate_itinerary_parsing_witness:
  \<open>completion (answering ''Here it is: {"destination": "Rome"} Enjoy!'') (length ([] :: call list)) =
       Inr (JStr ''Here it is: {"destination": "Rome"} Enjoy!'')
   \<and> json_loads (answering ''Here it is: {"destination": "Rome"} Enjoy!'')
       ''Here it is: {"destination": "Rome"} Enjoy!'' = Inl JSONDecodeError
   \<and> search_braces ''Here it is: {"destination": "Rome"} Enjoy!'' = Some ''{"destination": "Rome"}''
   \<and> json_loads (answering ''Here it is: {"destination": "Rome"} Enjoy!'')
       ''{"destination": "Rome"}'' = Inr (JDict [(''destination'', JStr ''Rome'')])
   \<and> fst (generate_itinerary (answering ''Here it is: {"destination": "Rome"} Enjoy!'')
            (JDict [(''creator'', JStr ''@x'')]) ''https://tiktok.com/@x/video/1'' None None []) =
       Inr (JDict [(''destination'', JStr ''Rome''),
                   (''source_url'', JStr ''https://tiktok.com/@x/video/1''),
                   (''source_creator'', JStr ''@x'')])\<close>
proof -
  let ?t = \<open>''Here it is: {"destination": "Rome"} Enjoy!''\<close>
  let ?m = \<open>''{"destination": "Rome"}''\<close>
  have 1: "completion (answering ?t) (length ([] :: call list)) = Inr (JStr ?t)"
    by (simp add: answering_def)
  have 2: "json_loads (answering ?t) ?t = Inl JSONDecodeError" by code_simp
  have 3: "search_braces ?t = Some ?m" by code_simp
  have 4: "json_loads (answering ?t) ?m = Inr (JDict [(''destination'', JStr ''Rome'')])"
    by code_simp
  have 5: "dict_set (dict_set [(''destination'', JStr ''Rome'')] ''source_url''
              (JStr ''https://tiktok.com/@x/video/1'')) ''source_creator''
              (dict_get [(''creator'', JStr ''@x'')] ''creator'' (JStr [])) =
           [(''destination'', JStr ''Rome''),
            (''source_url'', JStr ''https://tiktok.com/@x/video/1''),
            (''source_creator'', JStr ''@x'')]"
    by code_simp
  from generate_itinerary_parsing[OF 1 refl,
      of "[(''creator'', JStr ''@x'')]" "''https://tiktok.com/@x/video/1''" None None] 2 3 4
  have "fst (generate_itinerary (answering ?t) (JDict [(''creator'', JStr ''@x'')])
            ''https://tiktok.com/@x/video/1'' None None []) =
        Inr (JDict (dict_set (dict_set [(''destination'', JStr ''Rome'')] ''source_url''
              (JStr ''https://tiktok.com/@x/video/1'')) ''source_creator''
              (dict_get [(''creator'', JStr ''@x'')] ''creator'' (JStr []))))"
    by blast
  with 1 2 3 4 5 show ?thesis by simp
qed

text \<open>
  Claim C2, at the input where the code departs from it. The generator wraps the object
  \<^verbatim>\<open>{"destination": "Rome"}\<close> in prose. The first parse fails, the handler finds the
  object, stamps \<open>source_url\<close> and \<open>source_creator\<close> and returns it: \<open>days\<close>,
  \<open>duration_days\<close>, \<open>packing_tips\<close> and \<open>local_phrases\<close> are not defaulted. The same
  object returned alone takes the main path and gets the four defaults
  (\<open>generate_itinerary_main_path\<close> states them for every object).
\<close>

theorem generate_itinerary_recovery_skips_defaults:
  \<open>fst (generate_itinerary (answering ''Here it is: {"destination": "Rome"} Enjoy!'')
          (JDict [(''creator'', JStr ''@x'')]) ''https://tiktok.com/@x/video/1'' None None []) =
     Inr (JDict [(''destination'', JStr ''Rome''),
                 (''source_url'', JStr ''https://tiktok.com/@x/video/1''),
                 (''source_creator'', JStr ''@x'')])
   \<and> field (JDict [(''destination'', JStr ''Rome''),
                 (''source_url'', JStr ''https://tiktok.com/@x/video/1''),
                 (''source_creator'', JStr ''@x'')]) ''days'' = JNull
   \<and> fst (generate_itinerary (answering ''{"destination": "Rome"}'')
          (JDict [(''creator'', JStr ''@x'')]) ''https://tiktok.com/@x/video/1'' None None []) =
     Inr (JDict [(''destination'', JStr ''Rome''),
                 (''source_url'', JStr ''https://tiktok.com/@x/video/1''),
                 (''source_creator'', JStr ''@x''), (''days'', JList []),
                 (''duration_days'', JInt 0), (''packing_tips'', JList []),
                 (''local_phrases'', JList [])])\<close>
  by code_simp

end
